theory Spec2Isabelle
  imports Complex_Main "HOL-Library.Log_Nat"
begin

section \<open>Strings and paths\<close>

text \<open>
  Python strings are modelled as \<open>string\<close> (lists of 8-bit characters), paths as the
  strings \<open>str(path)\<close> gives. \<open>str.lower\<close> is modelled on ASCII letters.
\<close>

definition lower :: "string \<Rightarrow> string" where
  "lower s = map (\<lambda>c. case map_of (zip ''ABCDEFGHIJKLMNOPQRSTUVWXYZ''
                                        ''abcdefghijklmnopqrstuvwxyz'') c of
                        Some d \<Rightarrow> d | None \<Rightarrow> c) s"

text \<open>\<open>sep.join(parts)\<close>.\<close>

fun join :: "string \<Rightarrow> string list \<Rightarrow> string" where
  "join sep [] = []"
| "join sep [x] = x"
| "join sep (x # y # ys) = x @ sep @ join sep (y # ys)"

text \<open>\<open>s.split(sep)\<close> for a one-character separator: every occurrence splits.\<close>

fun split :: "char \<Rightarrow> string \<Rightarrow> string list" where
  "split sep [] = [[]]"
| "split sep (c # cs) =
     (if c = sep then [] # split sep cs
      else (case split sep cs of w # ws \<Rightarrow> (c # w) # ws | [] \<Rightarrow> [[c]]))"

text \<open>
  \<open>pathlib.PurePath.name\<close>, \<open>.suffix\<close> and \<open>.stem\<close>: the name is the last
  component; with \<open>i = name.rfind('.')\<close>, the suffix is \<open>name[i:]\<close> and the stem
  \<open>name[:i]\<close> when \<open>0 < i < len(name) - 1\<close>, else the suffix is empty and the stem is
  the whole name.
\<close>

definition name :: "string \<Rightarrow> string" where
  "name p = rev (takeWhile (\<lambda>c. c \<noteq> CHR ''/'') (rev p))"

definition has_suffix :: "string \<Rightarrow> bool" where
  "has_suffix n =
     (let ext = takeWhile (\<lambda>c. c \<noteq> CHR ''.'') (rev n)
      in CHR ''.'' \<in> set n \<and> ext \<noteq> [] \<and> length ext + 1 < length n)"

definition suffix :: "string \<Rightarrow> string" where
  "suffix p =
     (let n = name p; ext = rev (takeWhile (\<lambda>c. c \<noteq> CHR ''.'') (rev n))
      in if has_suffix n then CHR ''.'' # ext else [])"

definition stem :: "string \<Rightarrow> string" where
  "stem p =
     (let n = name p; ext = takeWhile (\<lambda>c. c \<noteq> CHR ''.'') (rev n)
      in if has_suffix n then take (length n - length ext - 1) n else n)"

text \<open>\<open>dir / child\<close> for a directory path without a trailing slash.\<close>

definition child :: "string \<Rightarrow> string \<Rightarrow> string" where
  "child dir n = dir @ ''/'' @ n"

section \<open>The state of the service\<close>

datatype level = DEBUG | INFO | WARNING | ERROR

text \<open>A file of the file system: its size in bytes and its text when read as UTF-8.\<close>

record inode =
  st_size :: nat
  content :: string

text \<open>A file-system event of the observer.\<close>

record event =
  is_directory :: bool
  src_path :: string

text \<open>
  A \<open>threading.Timer\<close> object: its argument, the instant its interval ends, and the
  \<open>finished\<close> flag that \<open>cancel()\<close> sets and that the timer thread tests before it calls
  the function and sets afterwards.
\<close>

record timer =
  args :: string
  fire_at :: nat
  finished :: bool

text \<open>The payload of a webhook call.\<close>

record payload =
  transcript_path :: string
  transcript_html :: string
  started_at :: string
  audio_duration_seconds :: int

text \<open>
  All mutable state: the handler's \<open>pending_files\<close> dictionary (path to timer object; the
  timer objects live in the store \<open>timers\<close>), the transcription queue with its
  \<open>processing\<close> and \<open>current_file\<close> attributes, the watcher's \<open>running\<close> flag, the
  file system, the log, the HTTP requests made (\<open>posts\<close>: URL and payload of every call
  of \<open>requests.post\<close>) and the subprocesses run (\<open>runs\<close>: the command line of every call
  of \<open>subprocess.run\<close>). \<open>clock\<close> is the current time in ticks; \<open>enqueued_at\<close> is a
  ghost record of the instant of every \<open>queue.add\<close>.
\<close>

record state =
  pending_files :: "string \<rightharpoonup> nat"
  timers :: "nat \<rightharpoonup> timer"
  next_timer :: nat
  queue :: "string list"
  processing :: bool
  current_file :: "string option"
  running :: bool
  files :: "string \<rightharpoonup> inode"
  logged :: "(level \<times> string) list"
  posts :: "(string \<times> payload) list"
  runs :: "string list list"
  clock :: nat
  enqueued_at :: "(nat \<times> string) list"

definition init :: "(string \<rightharpoonup> inode) \<Rightarrow> state" where
  "init fs = \<lparr>pending_files = Map.empty, timers = Map.empty, next_timer = 0, queue = [],
     processing = False, current_file = None, running = False, files = fs, logged = [],
     posts = [], runs = [], clock = 0, enqueued_at = []\<rparr>"

definition log_msg :: "level \<Rightarrow> string \<Rightarrow> state \<Rightarrow> state" where
  "log_msg l m s = s\<lparr>logged := logged s @ [(l, m)]\<rparr>"

section \<open>TranscriptionQueue\<close>

definition queue_add :: "string \<Rightarrow> state \<Rightarrow> state" where
  "queue_add audio_file s =
     log_msg INFO (''Queued for transcription: '' @ name audio_file)
       (s\<lparr>queue := queue s @ [audio_file],
          enqueued_at := enqueued_at s @ [(clock s, audio_file)]\<rparr>)"

definition queue_get :: "state \<Rightarrow> string option \<times> state" where
  "queue_get s = (case queue s of [] \<Rightarrow> (None, s) | x # xs \<Rightarrow> (Some x, s\<lparr>queue := xs\<rparr>))"

section \<open>AudioFileHandler\<close>

text \<open>\<open>Timer.cancel()\<close> on the timer object at address \<open>i\<close>.\<close>

definition cancel :: "nat \<Rightarrow> state \<Rightarrow> state" where
  "cancel i s =
     (case timers s i of None \<Rightarrow> s
      | Some t \<Rightarrow> s\<lparr>timers := (timers s)(i \<mapsto> t\<lparr>finished := True\<rparr>)\<rparr>)"

text \<open>\<open>on_created\<close>, with the handler's \<open>debounce_seconds\<close> as first argument.\<close>

definition on_created :: "nat \<Rightarrow> event \<Rightarrow> state \<Rightarrow> state" where
  "on_created debounce_seconds ev s =
     (if is_directory ev then s
      else let file_path = src_path ev in
        if lower (suffix file_path) \<noteq> ''.wav'' then s
        else let
          s1 = log_msg DEBUG (''File detected: '' @ name file_path) s;
          s2 = (case pending_files s1 file_path of Some i \<Rightarrow> cancel i s1 | None \<Rightarrow> s1);
          i = next_timer s2;
          t = \<lparr>args = file_path, fire_at = clock s2 + debounce_seconds, finished = False\<rparr>
        in s2\<lparr>pending_files := (pending_files s2)(file_path \<mapsto> i),
               timers := (timers s2)(i \<mapsto> t),
               next_timer := Suc i\<rparr>)"

text \<open>\<open>_add_to_queue\<close>: the function a timer calls when its interval has ended.\<close>

definition add_to_queue :: "string \<Rightarrow> state \<Rightarrow> state" where
  "add_to_queue file_path s =
     (let s1 = (if file_path \<in> dom (pending_files s)
                then s\<lparr>pending_files := (pending_files s)(file_path := None)\<rparr> else s)
      in case files s1 file_path of
           Some f \<Rightarrow>
             if st_size f > 0 then queue_add file_path s1
             else log_msg WARNING (''File no longer exists or is empty: '' @ name file_path) s1
         | None \<Rightarrow>
             log_msg WARNING (''File no longer exists or is empty: '' @ name file_path) s1)"

text \<open>
  The timer thread of the timer at address \<open>i\<close>, at the end of its interval: unless the
  timer is finished (cancelled), it calls \<open>_add_to_queue\<close> and sets \<open>finished\<close>. The file
  system the callback sees is the directory as it is at that instant, \<open>fs (fire_at t)\<close>.
\<close>

definition timer_run :: "(nat \<Rightarrow> string \<rightharpoonup> inode) \<Rightarrow> nat \<Rightarrow> state \<Rightarrow> state" where
  "timer_run fs i s =
     (case timers s i of None \<Rightarrow> s
      | Some t \<Rightarrow>
          if finished t then s
          else let s1 = add_to_queue (args t) (s\<lparr>clock := fire_at t, files := fs (fire_at t)\<rparr>)
               in s1\<lparr>timers := (timers s1)(i \<mapsto> t\<lparr>finished := True\<rparr>)\<rparr>)"

text \<open>
  Time passes until \<open>now\<close>: every timer whose interval has ended by then runs, in the
  order the timers were started (all intervals are equal, so this is the order in which
  they end).
\<close>

definition fire_due :: "(nat \<Rightarrow> string \<rightharpoonup> inode) \<Rightarrow> nat \<Rightarrow> nat \<Rightarrow> state \<Rightarrow> state" where
  "fire_due fs now i s =
     (case timers s i of None \<Rightarrow> s
      | Some t \<Rightarrow> if fire_at t \<le> now then timer_run fs i s else s)"

definition advance :: "(nat \<Rightarrow> string \<rightharpoonup> inode) \<Rightarrow> nat \<Rightarrow> state \<Rightarrow> state" where
  "advance fs now s = (fold (fire_due fs now) [0..<next_timer s] s)\<lparr>clock := now, files := fs now\<rparr>"

text \<open>
  A run of the handler on a list of notifications, each with the instant it is delivered:
  time advances to the notification, then \<open>on_created\<close> handles it.
\<close>

fun simulate :: "(nat \<Rightarrow> string \<rightharpoonup> inode) \<Rightarrow> nat \<Rightarrow> (nat \<times> event) list \<Rightarrow> state \<Rightarrow> state" where
  "simulate fs d [] s = s"
| "simulate fs d ((t, ev) # evs) s = simulate fs d evs (on_created d ev (advance fs t s))"

text \<open>The instants at which \<open>queue.add\<close> was called for a path.\<close>

definition enqueued_for :: "string \<Rightarrow> state \<Rightarrow> nat list" where
  "enqueued_for p s = map fst (filter (\<lambda>e. snd e = p) (enqueued_at s))"

section \<open>The debounce of one path, abstractly\<close>

text \<open>
  What the handler does for a single path \<open>p\<close>, written without timers: a pair of the
  instant at which the path's pending timer ends (if one is pending) and the instants at
  which the path was enqueued so far. It is compared with the handler below.
\<close>

definition is_for :: "string \<Rightarrow> event \<Rightarrow> bool" where
  "is_for p ev \<longleftrightarrow> \<not> is_directory ev \<and> src_path ev = p"

definition times_for :: "string \<Rightarrow> (nat \<times> event) list \<Rightarrow> nat list" where
  "times_for p evs = map fst (filter (\<lambda>e. is_for p (snd e)) evs)"

definition present :: "(nat \<Rightarrow> string \<rightharpoonup> inode) \<Rightarrow> string \<Rightarrow> nat \<Rightarrow> bool" where
  "present fs p t = (case fs t p of Some f \<Rightarrow> 0 < st_size f | None \<Rightarrow> False)"

definition settle :: "(nat \<Rightarrow> string \<rightharpoonup> inode) \<Rightarrow> string \<Rightarrow> nat \<Rightarrow> nat option \<times> nat list \<Rightarrow> nat option \<times> nat list" where
  "settle fs p now a =
     (case fst a of
        Some T \<Rightarrow> if T \<le> now then (None, if present fs p T then snd a @ [T] else snd a) else a
      | None \<Rightarrow> a)"

fun track :: "(nat \<Rightarrow> string \<rightharpoonup> inode) \<Rightarrow> nat \<Rightarrow> string \<Rightarrow> (nat \<times> event) list \<Rightarrow> nat option \<times> nat list \<Rightarrow> nat option \<times> nat list" where
  "track fs d p [] a = a"
| "track fs d p ((t, ev) # evs) a =
     track fs d p evs
       (let b = settle fs p t a in if is_for p ev then (Some (t + d), snd b) else b)"

text \<open>
  The invariants that relate the handler's state to the abstract pair: every entry of
  \<open>pending_files\<close> points to a timer object for that path and every timer object has an
  address below \<open>next_timer\<close>; the path is idle (all its timers are finished) or armed
  (exactly one unfinished timer, the one \<open>pending_files\<close> holds).
\<close>

definition timers_ok :: "state \<Rightarrow> bool" where
  "timers_ok s \<longleftrightarrow>
     (\<forall>q i. pending_files s q = Some i \<longrightarrow> (\<exists>t. timers s i = Some t \<and> args t = q)) \<and>
     (\<forall>i t. timers s i = Some t \<longrightarrow> i < next_timer s)"

definition idle :: "string \<Rightarrow> state \<Rightarrow> bool" where
  "idle p s \<longleftrightarrow> (\<forall>i t. timers s i = Some t \<longrightarrow> args t = p \<longrightarrow> finished t)"

definition armed :: "string \<Rightarrow> nat \<Rightarrow> state \<Rightarrow> bool" where
  "armed p T s \<longleftrightarrow>
     (\<exists>i. pending_files s p = Some i \<and>
          timers s i = Some \<lparr>args = p, fire_at = T, finished = False\<rparr> \<and>
          (\<forall>j t. j \<noteq> i \<longrightarrow> timers s j = Some t \<longrightarrow> args t = p \<longrightarrow> finished t))"

definition tracks :: "string \<Rightarrow> nat option \<times> nat list \<Rightarrow> state \<Rightarrow> bool" where
  "tracks p a s \<longleftrightarrow>
     timers_ok s \<and> enqueued_for p s = snd a \<and>
     (case fst a of None \<Rightarrow> idle p s | Some T \<Rightarrow> armed p T s)"

section \<open>Configuration and environment\<close>

text \<open>
  The keys of the configuration dictionary the watcher reads. A key that may be absent
  (read with \<open>.get\<close>) is an option; the default is applied where the key is read.
  \<open>executable\<close> is \<open>sys.executable\<close>.
\<close>

record config =
  recordings_dir :: string
  transcripts_dir :: string
  noscribe_path :: string
  executable :: string
  language :: "string option"
  speaker_detection :: "string option"
  timestamps :: "bool option"
  pause :: "string option"
  model :: "string option"
  webhook_enabled :: "bool option"
  webhook_url :: "string option"
  webhook_timeout :: "nat option"

text \<open>
  What a call of \<open>subprocess.run(cmd, capture_output=True, text=True)\<close> gives: an
  exception (the program could not be started), or the exit code with the two captured
  streams.
\<close>

datatype run_result = Raised string | Completed int string string

text \<open>What \<open>requests.post\<close> gives: a transport exception, or a response with its status.\<close>

datatype http_result = TransportError string | Response nat

text \<open>
  What the conversion of a local time to UTC gives: the UTC time (in seconds since
  0001-01-01 00:00:00), or one of the two exceptions it can raise.
\<close>

datatype conversion = Converted int | ConversionValueError string | ConversionOverflowError

text \<open>
  The world outside the process. \<open>run_process\<close> is the effect of a subprocess: its
  result and the file system it leaves. \<open>http_post\<close> is the network (URL, payload,
  timeout). \<open>unlink_error\<close> is the exception (if any) that deleting a path raises. \<open>float_repr\<close> is Python's
  \<open>repr\<close> of a float (the shortest decimal that reads back as the same float), taken
  as given. \<open>utcoffset\<close> is the local time zone: the offset in seconds from UTC of a local
  wall-clock time, given as seconds since 0001-01-01 00:00:00; \<open>edge_conversion\<close> is
  what the conversion to UTC does for a local time within two days of the ends of the
  supported years, where it depends on the platform; \<open>utc_now\<close> is the current UTC
  time in seconds since 0001-01-01 00:00:00. \<open>elapsed\<close> is the text of the measured
  processing time.
\<close>

record env =
  run_process :: "string list \<Rightarrow> (string \<rightharpoonup> inode) \<Rightarrow> run_result \<times> (string \<rightharpoonup> inode)"
  http_post :: "string \<Rightarrow> payload \<Rightarrow> nat \<Rightarrow> http_result"
  unlink_error :: "string \<Rightarrow> string option"
  tempdir :: string
  float_repr :: "rat \<Rightarrow> string"
  utcoffset :: "int \<Rightarrow> int"
  edge_conversion :: "int \<Rightarrow> conversion"
  utc_now :: int
  elapsed :: string

text \<open>\<open>subprocess.run\<close> of a command: its result, in the state it leaves.\<close>

definition run :: "env \<Rightarrow> string list \<Rightarrow> state \<Rightarrow> run_result \<times> state" where
  "run E cmd s =
     (let (r, fs') = run_process E cmd (files s)
      in (r, s\<lparr>files := fs', runs := runs s @ [cmd]\<rparr>))"

section \<open>Numbers as text\<close>

definition digit_char :: "nat \<Rightarrow> char" where
  "digit_char n = ''0123456789'' ! n"

definition digit_val :: "char \<Rightarrow> nat option" where
  "digit_val c = map_of (zip ''0123456789'' [0, 1, 2, 3, 4, 5, 6, 7, 8, 9]) c"

text \<open>\<open>str(n)\<close> for an integer.\<close>

fun str_nat :: "nat \<Rightarrow> string" where
  "str_nat n = (if n < 10 then [digit_char n] else str_nat (n div 10) @ [digit_char (n mod 10)])"

declare str_nat.simps [simp del]

definition str_int :: "int \<Rightarrow> string" where
  "str_int i = (if i < 0 then CHR ''-'' # str_nat (nat (- i)) else str_nat (nat i))"

text \<open>
  \<open>int(s)\<close> on ASCII text: surrounding whitespace is ignored, a sign may come first, then
  decimal digits, where single underscores may stand between digits. Anything else raises
  \<open>ValueError\<close> (\<open>None\<close>).
\<close>

definition is_space :: "char \<Rightarrow> bool" where
  "is_space c \<longleftrightarrow> of_char c \<in> {9, 10, 11, 12, 13, 28, 29, 30, 31, 32 :: nat}"

definition strip :: "string \<Rightarrow> string" where
  "strip s = rev (dropWhile is_space (rev (dropWhile is_space s)))"

fun digits_val :: "nat \<Rightarrow> string \<Rightarrow> nat option" where
  "digits_val acc [] = Some acc"
| "digits_val acc [c] = (case digit_val c of Some v \<Rightarrow> Some (10 * acc + v) | None \<Rightarrow> None)"
| "digits_val acc (c # c' # cs) =
     (case digit_val c of
        Some v \<Rightarrow> digits_val (10 * acc + v) (if c' = CHR ''_'' then cs else c' # cs)
      | None \<Rightarrow> None)"

definition unsigned_val :: "string \<Rightarrow> nat option" where
  "unsigned_val s = (if s = [] \<or> last s = CHR ''_'' then None else digits_val 0 s)"

definition py_int :: "string \<Rightarrow> int option" where
  "py_int s =
     (case strip s of
        [] \<Rightarrow> None
      | c # cs \<Rightarrow>
          if c = CHR ''-'' then map_option (\<lambda>n. - int n) (unsigned_val cs)
          else if c = CHR ''+'' then map_option int (unsigned_val cs)
          else map_option int (unsigned_val (c # cs)))"

section \<open>Startup reconciler\<close>

text \<open>
  \<open>recordings_dir.glob("*.wav")\<close>: the entries of the directory whose name ends in
  \<open>.wav\<close>. The names of the directory's entries are given, in the order the scan yields
  them.
\<close>

definition glob_wav :: "string \<Rightarrow> bool" where
  "glob_wav n \<longleftrightarrow> 4 \<le> length n \<and> drop (length n - 4) n = ''.wav''"

definition transcript_for :: "config \<Rightarrow> string \<Rightarrow> string" where
  "transcript_for cfg audio_file = child (transcripts_dir cfg) (stem audio_file @ ''.html'')"

definition reconcile_one :: "config \<Rightarrow> string \<Rightarrow> state \<Rightarrow> state" where
  "reconcile_one cfg wav_file s =
     (if files s (transcript_for cfg wav_file) = None
      then queue_add wav_file
             (log_msg INFO (''Found unprocessed file: '' @ name wav_file) s)
      else s)"

definition process_existing_files :: "config \<Rightarrow> string list \<Rightarrow> state \<Rightarrow> state" where
  "process_existing_files cfg entries s =
     fold (reconcile_one cfg) (map (child (recordings_dir cfg)) (filter glob_wav entries)) s"

text \<open>The audio files of a listing that have no transcript in a file system.\<close>

definition untranscribed :: "config \<Rightarrow> (string \<rightharpoonup> inode) \<Rightarrow> string list \<Rightarrow> string list" where
  "untranscribed cfg fs entries =
     filter (\<lambda>w. fs (transcript_for cfg w) = None)
       (map (child (recordings_dir cfg)) (filter glob_wav entries))"

text \<open>A configuration used in the examples: webhook keys absent, all defaults.\<close>

definition example_config :: config where
  "example_config = \<lparr>recordings_dir = ''/rec'', transcripts_dir = ''/txt'',
     noscribe_path = ''/opt/noScribe/noScribe.py'', executable = ''python3'', language = None,
     speaker_detection = None, timestamps = None, pause = None, model = None,
     webhook_enabled = None, webhook_url = None, webhook_timeout = None\<rparr>"


section \<open>Floating-point numbers\<close>

text \<open>
  A Python float is an IEEE 754 double. Its value is modelled exactly, as a rational:
  \<open>to_double x\<close> is the double nearest to \<open>x\<close> (ties to the even significand of 53
  bits), for \<open>x\<close> in the range of normal doubles. Python's true division of two integers
  and the division of two floats give the correctly rounded quotient, \<open>to_double (a / b)\<close>;
  the conversion of an integer to a float gives \<open>to_double\<close> of it. \<open>round(x)\<close> of a
  float rounds to the nearest integer, ties to even.
\<close>

definition pow2 :: "int \<Rightarrow> rat" where
  "pow2 e = 2 powi e"

definition py_round :: "rat \<Rightarrow> int" where
  "py_round x =
     (let f = \<lfloor>x\<rfloor>; r = x - of_int f
      in if r < 1 / 2 then f else if 1 / 2 < r then f + 1 else if even f then f else f + 1)"

text \<open>The binary exponent of a non-zero rational: the integer part of its logarithm to base 2.\<close>

definition exponent :: "rat \<Rightarrow> int" where
  "exponent x =
     (let (n, d) = quotient_of \<bar>x\<bar>; e0 = bitlen n - bitlen d
      in if pow2 e0 \<le> \<bar>x\<bar> then e0 else e0 - 1)"

definition to_double :: "rat \<Rightarrow> rat" where
  "to_double x =
     (if x = 0 then 0
      else let e = exponent x; m = py_round (\<bar>x\<bar> * pow2 (52 - e))
           in sgn x * of_int m * pow2 (e - 52))"

section \<open>Audio duration of the webhook payload\<close>

text \<open>
  \<open>duration_seconds = max(0, (audio_size - 44) / 32000)\<close>: the quotient is a float;
  \<open>max\<close> gives its first argument, the integer 0, unless the second is greater. The
  payload holds \<open>round(duration_seconds)\<close>.
\<close>

definition duration_seconds :: "nat \<Rightarrow> rat" where
  "duration_seconds audio_size =
     (let q = to_double (of_int (int audio_size - 44) / 32000) in if 0 < q then q else 0)"

definition rounded_duration :: "nat \<Rightarrow> int" where
  "rounded_duration audio_size = py_round (duration_seconds audio_size)"

section \<open>Audio premix\<close>

definition probe_cmd :: "string \<Rightarrow> string list" where
  "probe_cmd audio_file =
     [''/opt/homebrew/bin/ffprobe'', ''-v'', ''error'', ''-select_streams'', ''a:0'',
      ''-show_entries'', ''stream=channels'', ''-of'', ''csv=p=0'', audio_file]"

text \<open>\<open>weight = 1.0 / channels\<close>: the integer becomes a float, then the floats are divided.\<close>

definition weight :: "int \<Rightarrow> rat" where
  "weight channels = to_double (1 / to_double (of_int channels))"

text \<open>
  The terms of the pan filter, one for each \<open>i\<close> in \<open>range(channels)\<close>: the weight and
  the index of the input channel. The filter text renders each as \<open>{weight}*c{i}\<close>.
\<close>

definition mix_terms :: "int \<Rightarrow> (rat \<times> nat) list" where
  "mix_terms channels = map (\<lambda>i. (weight channels, i)) [0..<nat channels]"

definition mix_filter :: "env \<Rightarrow> int \<Rightarrow> string" where
  "mix_filter E channels =
     ''pan=mono|c0='' @
     join ''+'' (map (\<lambda>(w, i). float_repr E w @ ''*c'' @ str_nat i) (mix_terms channels))"

definition mix_cmd :: "env \<Rightarrow> string \<Rightarrow> string \<Rightarrow> int \<Rightarrow> string list" where
  "mix_cmd E audio_file mixed_file channels =
     [''/opt/homebrew/bin/ffmpeg'', ''-y'', ''-i'', audio_file,
      ''-af'', mix_filter E channels,
      ''-ar'', ''48000'',
      ''-c:a'', ''pcm_s16le'',
      mixed_file]"

text \<open>
  The channel count the probe gives, with the log entry: the parsed standard output, or
  2 with a warning when the probe or the parse raises.
\<close>

definition probe_channels :: "string \<Rightarrow> run_result \<Rightarrow> int \<times> level \<times> string" where
  "probe_channels audio_file r =
     (case r of
        Raised e \<Rightarrow> (2, WARNING, ''ffprobe failed: '' @ e @ '', assuming 2 channels'')
      | Completed rc out err \<Rightarrow>
          (case py_int (strip out) of
             None \<Rightarrow>
               (2, WARNING, ''ffprobe failed: invalid literal for int() with base 10: '' @
                   [CHR 0x27] @ strip out @ [CHR 0x27] @ '', assuming 2 channels'')
           | Some channels \<Rightarrow>
               (channels, DEBUG,
                ''Detected '' @ str_int channels @ '' channels in '' @ name audio_file)))"

text \<open>\<open>_premix_audio\<close>: the path of the audio to transcribe, and the state it leaves.\<close>

definition premix_audio :: "env \<Rightarrow> string \<Rightarrow> state \<Rightarrow> string \<times> state" where
  "premix_audio E audio_file s =
     (let (r, s0) = run E (probe_cmd audio_file) s;
          (channels, lv, msg) = probe_channels audio_file r;
          s1 = log_msg lv msg s0
      in if channels \<le> 2 then (audio_file, s1)
         else let
           s2 = log_msg INFO (''Pre-mixing '' @ str_int channels @ ''-channel audio to mono'') s1;
           mixed_file = child (tempdir E) (stem audio_file @ ''_mixed.wav'');
           (r2, s3) = run E (mix_cmd E audio_file mixed_file channels) s2
         in case r2 of
              Raised e \<Rightarrow>
                (audio_file, log_msg WARNING (''Pre-mix error, using original: '' @ e) s3)
            | Completed rc out err \<Rightarrow>
                if rc = 0 \<and> files s3 mixed_file \<noteq> None
                then (mixed_file, log_msg DEBUG (''Pre-mixed audio saved to: '' @ mixed_file) s3)
                else (audio_file,
                      log_msg WARNING (''Pre-mix failed, using original: '' @ err) s3))"


section \<open>Dates and times\<close>

text \<open>
  A naive \<open>datetime\<close> of Python's \<open>datetime\<close> module, with the module's proleptic
  Gregorian calendar: \<open>ymd2ord\<close> and \<open>ord2ymd\<close> convert between a date and its ordinal
  (1 for 0001-01-01).
\<close>

record datetime =
  year :: int
  month :: int
  day :: int
  hour :: int
  minute :: int
  second :: int

definition is_leap :: "int \<Rightarrow> bool" where
  "is_leap y \<longleftrightarrow> y mod 4 = 0 \<and> (y mod 100 \<noteq> 0 \<or> y mod 400 = 0)"

definition days_in_month_table :: "int list" where
  "days_in_month_table = [31, 28, 31, 30, 31, 30, 31, 31, 30, 31, 30, 31]"

definition days_before_month_table :: "int list" where
  "days_before_month_table = [0, 31, 59, 90, 120, 151, 181, 212, 243, 273, 304, 334]"

definition days_in_month :: "int \<Rightarrow> int \<Rightarrow> int" where
  "days_in_month y m =
     (if m = 2 \<and> is_leap y then 29 else days_in_month_table ! nat (m - 1))"

definition days_before_year :: "int \<Rightarrow> int" where
  "days_before_year y = (let y1 = y - 1 in y1 * 365 + y1 div 4 - y1 div 100 + y1 div 400)"

definition days_before_month :: "int \<Rightarrow> int \<Rightarrow> int" where
  "days_before_month y m =
     days_before_month_table ! nat (m - 1) + (if 2 < m \<and> is_leap y then 1 else 0)"

definition ymd2ord :: "int \<Rightarrow> int \<Rightarrow> int \<Rightarrow> int" where
  "ymd2ord y m d = days_before_year y + days_before_month y m + d"

definition ord2ymd :: "int \<Rightarrow> int \<times> int \<times> int" where
  "ord2ymd n =
     (let n0 = n - 1;
          n400 = n0 div 146097; r400 = n0 mod 146097;
          n100 = r400 div 36524; r100 = r400 mod 36524;
          n4 = r100 div 1461; r4 = r100 mod 1461;
          n1 = r4 div 365; r1 = r4 mod 365;
          y = n400 * 400 + 1 + n100 * 100 + n4 * 4 + n1
      in if n1 = 4 \<or> n100 = 4 then (y - 1, 12, 31)
         else let
           leapyear = (n1 = 3 \<and> (n4 \<noteq> 24 \<or> n100 = 3));
           m = (r1 + 50) div 32;
           preceding = days_before_month_table ! nat (m - 1) + (if 2 < m \<and> leapyear then 1 else 0)
         in if r1 < preceding
            then (y, m - 1,
                  r1 - (preceding - (days_in_month_table ! nat (m - 2) +
                                     (if m - 1 = 2 \<and> leapyear then 1 else 0))) + 1)
            else (y, m, r1 - preceding + 1))"

text \<open>The seconds from 0001-01-01 00:00:00 to a datetime, and back.\<close>

definition instant :: "datetime \<Rightarrow> int" where
  "instant dt =
     (ymd2ord (year dt) (month dt) (day dt) - 1) * 86400 +
     hour dt * 3600 + minute dt * 60 + second dt"

definition of_instant :: "int \<Rightarrow> datetime" where
  "of_instant t =
     (let (y, m, d) = ord2ymd (t div 86400 + 1); r = t mod 86400
      in \<lparr>year = y, month = m, day = d,
          hour = r div 3600, minute = r mod 3600 div 60, second = r mod 60\<rparr>)"

text \<open>
  \<open>local_dt.astimezone(timezone.utc)\<close> of a naive datetime: the offset of the local zone
  for that wall-clock time is subtracted; a result outside the years 1 to 9999 raises
  \<open>OverflowError\<close>. To find the offset, CPython converts instants up to a day before and
  after the given time, and raises \<open>ValueError\<close> when one of them leaves the years 1 to
  9999; within two days of the ends of that range the result is therefore left to the
  environment.
\<close>

definition astimezone_utc :: "env \<Rightarrow> datetime \<Rightarrow> conversion" where
  "astimezone_utc E dt =
     (let t = instant dt
      in if 2 * 86400 \<le> t \<and> t < 3652057 * 86400
         then let u = t - utcoffset E t
              in if 0 \<le> u \<and> u < 3652059 * 86400 then Converted u
                 else ConversionOverflowError
         else edge_conversion E t)"

text \<open>The constructor \<open>datetime(year, month, day, hour, minute, second)\<close>; \<open>Inl\<close> is the
  message of the \<open>ValueError\<close> it raises.\<close>

definition make_datetime :: "int \<Rightarrow> int \<Rightarrow> int \<Rightarrow> int \<Rightarrow> int \<Rightarrow> int \<Rightarrow> string + datetime" where
  "make_datetime y m d H M S =
     (if \<not> (1 \<le> y \<and> y \<le> 9999) then Inl (''year '' @ str_int y @ '' is out of range'')
      else if \<not> (1 \<le> m \<and> m \<le> 12) then Inl ''month must be in 1..12''
      else if \<not> (1 \<le> d \<and> d \<le> days_in_month y m) then Inl ''day is out of range for month''
      else if \<not> (0 \<le> H \<and> H \<le> 23) then Inl ''hour must be in 0..23''
      else if \<not> (0 \<le> M \<and> M \<le> 59) then Inl ''minute must be in 0..59''
      else if \<not> (0 \<le> S \<and> S \<le> 59) then Inl ''second must be in 0..59''
      else Inr \<lparr>year = y, month = m, day = d, hour = H, minute = M, second = S\<rparr>)"

text \<open>
  \<open>str.zfill\<close> on text without a sign, and the two \<open>strftime\<close> formats in use:
  \<open>%Y-%m-%d_%H-%M-%S\<close> (the recorder's file names) and \<open>%Y-%m-%dT%H:%M:%SZ\<close>.
  The year is rendered with four digits, as the C library of macOS, the platform of the
  service, does; from the year 1000 on every platform agrees.
\<close>

definition zfill :: "nat \<Rightarrow> string \<Rightarrow> string" where
  "zfill k s = replicate (k - length s) (CHR ''0'') @ s"

definition pad :: "nat \<Rightarrow> int \<Rightarrow> string" where
  "pad k i = zfill k (str_nat (nat i))"


definition iso_z :: "datetime \<Rightarrow> string" where
  "iso_z dt =
     pad 4 (year dt) @ ''-'' @ pad 2 (month dt) @ ''-'' @ pad 2 (day dt) @ ''T'' @
     pad 2 (hour dt) @ '':'' @ pad 2 (minute dt) @ '':'' @ pad 2 (second dt) @ ''Z''"

definition str_datetime :: "datetime \<Rightarrow> string" where
  "str_datetime dt =
     pad 4 (year dt) @ ''-'' @ pad 2 (month dt) @ ''-'' @ pad 2 (day dt) @ '' '' @
     pad 2 (hour dt) @ '':'' @ pad 2 (minute dt) @ '':'' @ pad 2 (second dt)"

section \<open>The start time of a recording\<close>

text \<open>
  Unpacking the result of a \<open>split\<close> into two or three names, and \<open>int\<close> of a field;
  \<open>Inl\<close> is the message of the \<open>ValueError\<close> raised.
\<close>

definition unpack2 :: "string list \<Rightarrow> string + string \<times> string" where
  "unpack2 xs =
     (case xs of
        [a, b] \<Rightarrow> Inr (a, b)
      | _ \<Rightarrow>
          if length xs < 2
          then Inl (''not enough values to unpack (expected 2, got '' @ str_nat (length xs) @ '')'')
          else Inl ''too many values to unpack (expected 2)'')"

definition unpack3 :: "string list \<Rightarrow> string + string \<times> string \<times> string" where
  "unpack3 xs =
     (case xs of
        [a, b, c] \<Rightarrow> Inr (a, b, c)
      | _ \<Rightarrow>
          if length xs < 3
          then Inl (''not enough values to unpack (expected 3, got '' @ str_nat (length xs) @ '')'')
          else Inl ''too many values to unpack (expected 3)'')"

definition int_field :: "string \<Rightarrow> string + int" where
  "int_field s =
     (case py_int s of
        Some i \<Rightarrow> Inr i
      | None \<Rightarrow> Inl (''invalid literal for int() with base 10: '' @ [CHR 0x27] @ s @ [CHR 0x27]))"

text \<open>A computation that stops at the first exception.\<close>

definition bind :: "string + 'a \<Rightarrow> ('a \<Rightarrow> string + 'b) \<Rightarrow> string + 'b" where
  "bind r f = (case r of Inl e \<Rightarrow> Inl e | Inr v \<Rightarrow> f v)"

text \<open>
  The body of the inner \<open>try\<close> up to the construction of \<open>local_dt\<close>: splitting the stem,
  converting the six fields and constructing the naive datetime.
\<close>

definition parse_local :: "string \<Rightarrow> string + datetime" where
  "parse_local filename_without_ext =
     bind (unpack2 (split (CHR ''_'') filename_without_ext)) (\<lambda>(date_part, time_part).
     bind (unpack3 (split (CHR ''-'') date_part)) (\<lambda>(y, m, d).
     bind (unpack3 (split (CHR ''-'') time_part)) (\<lambda>(H, M, S).
     bind (int_field y) (\<lambda>yi.
     bind (int_field m) (\<lambda>mi.
     bind (int_field d) (\<lambda>di.
     bind (int_field H) (\<lambda>Hi.
     bind (int_field M) (\<lambda>Mi.
     bind (int_field S) (\<lambda>Si.
     make_datetime yi mi di Hi Mi Si)))))))))"

text \<open>
  The three ways the construction of \<open>started_at\<close> ends: the timestamp is parsed and
  converted; the inner handler for \<open>ValueError\<close> and \<open>IndexError\<close> falls back to the
  current UTC time; or \<open>astimezone\<close> raises \<open>OverflowError\<close>, which that handler does
  not catch.
\<close>

datatype started = Parsed string | Fallback string | Overflow

text \<open>The handler of the inner \<open>try\<close>, for a \<open>ValueError\<close> with the message \<open>e\<close>.\<close>

definition fall_back :: "env \<Rightarrow> string \<Rightarrow> string \<Rightarrow> state \<Rightarrow> started \<times> state" where
  "fall_back E filename_without_ext e s =
     (Fallback (iso_z (of_instant (utc_now E))),
      log_msg WARNING (''Could not parse timestamp from filename: '' @
                       filename_without_ext @ '' ('' @ e @ '')'') s)"

definition build_started_at :: "env \<Rightarrow> string \<Rightarrow> state \<Rightarrow> started \<times> state" where
  "build_started_at E filename_without_ext s =
     (case parse_local filename_without_ext of
        Inr local_dt \<Rightarrow>
          (case astimezone_utc E local_dt of
             Converted u \<Rightarrow>
               (Parsed (iso_z (of_instant u)),
                log_msg DEBUG (''Parsed timestamp: local='' @ str_datetime local_dt @
                               '', utc='' @ iso_z (of_instant u)) s)
           | ConversionValueError e \<Rightarrow> fall_back E filename_without_ext e s
           | ConversionOverflowError \<Rightarrow> (Overflow, s))
      | Inl e \<Rightarrow> fall_back E filename_without_ext e s)"



section \<open>Transcription and webhook delivery\<close>

text \<open>
  Both \<open>_transcribe_file\<close> and \<open>_send_webhook\<close> return \<open>None\<close> on every path. The model
  returns, beside the state, which of their exits was taken, so that the terminal states
  of a job can be told apart.
\<close>

datatype exit_path =
    NoScribeLaunchFailed
  | NoScribeNonZero
  | WebhookDisabled
  | WebhookUrlMissing
  | WebhookPrepareFailed
  | WebhookRequestFailed
  | WebhookSent

text \<open>
  The terminal states of the job state machine, read off the exit: a local failure when
  the transcription subprocess failed; a delivery failure when the transcript was produced
  and the webhook handler logged an error; delivered otherwise (also when there was
  nothing to deliver to).
\<close>

datatype job_state = Queued | Processing | Delivered | FailedLocal | FailedDelivery

fun terminal_state :: "exit_path \<Rightarrow> job_state" where
  "terminal_state NoScribeLaunchFailed = FailedLocal"
| "terminal_state NoScribeNonZero = FailedLocal"
| "terminal_state WebhookDisabled = Delivered"
| "terminal_state WebhookUrlMissing = Delivered"
| "terminal_state WebhookPrepareFailed = FailedDelivery"
| "terminal_state WebhookRequestFailed = FailedDelivery"
| "terminal_state WebhookSent = Delivered"

text \<open>The two marks the webhook log messages start with, as UTF-8.\<close>

definition check_mark :: string where
  "check_mark = [CHR 0xE2, CHR 0x9C, CHR 0x85]"

definition cross_mark :: string where
  "cross_mark = [CHR 0xE2, CHR 0x9D, CHR 0x8C]"

text \<open>
  \<open>response.raise_for_status()\<close> of the requests library raises \<open>HTTPError\<close>, a
  \<open>RequestException\<close>, for a status from 400 to 599 and returns for any other. The
  message of the exception is given without the reason phrase of the response.
\<close>

definition raise_for_status :: "string \<Rightarrow> nat \<Rightarrow> string option" where
  "raise_for_status url status =
     (if 400 \<le> status \<and> status < 500
      then Some (str_nat status @ '' Client Error for url: '' @ url)
      else if 500 \<le> status \<and> status < 600
      then Some (str_nat status @ '' Server Error for url: '' @ url)
      else None)"

definition missing_file :: "string \<Rightarrow> string" where
  "missing_file p = ''[Errno 2] No such file or directory: '' @ [CHR 0x27] @ p @ [CHR 0x27]"

text \<open>
  The end of the body of \<open>_send_webhook\<close>: the payload is built and posted once, and the
  response is checked.
\<close>

definition post_payload ::
  "env \<Rightarrow> config \<Rightarrow> string \<Rightarrow> inode \<Rightarrow> inode \<Rightarrow> string \<Rightarrow> string \<Rightarrow> state \<Rightarrow> exit_path \<times> state" where
  "post_payload E cfg url tf af transcript_file st s =
     (let body = \<lparr>transcript_path = transcript_file, transcript_html = content tf,
                   started_at = st, audio_duration_seconds = rounded_duration (st_size af)\<rparr>;
          timeout = (case webhook_timeout cfg of Some t \<Rightarrow> t | None \<Rightarrow> 30);
          s1 = s\<lparr>posts := posts s @ [(url, body)]\<rparr>
      in case http_post E url body timeout of
           TransportError e \<Rightarrow>
             (WebhookRequestFailed,
              log_msg ERROR (cross_mark @ '' Webhook request failed: '' @ e) s1)
         | Response status \<Rightarrow>
             (case raise_for_status url status of
                Some e \<Rightarrow>
                  (WebhookRequestFailed,
                   log_msg ERROR (cross_mark @ '' Webhook request failed: '' @ e) s1)
              | None \<Rightarrow>
                  (WebhookSent,
                   log_msg DEBUG (''Payload sent (HTML content: '' @
                                  str_nat (length (content tf)) @ '' chars)'')
                     (log_msg INFO (check_mark @ '' Webhook sent successfully to n8n: '' @
                                    str_nat status) s1))))"

text \<open>
  \<open>_send_webhook\<close>. Inside its \<open>try\<close>, reading the transcript and \<open>stat\<close> of the audio
  file raise when the file is missing, and an \<open>OverflowError\<close> of the time conversion
  arrives here; the handler for \<open>Exception\<close> logs each.
\<close>

definition send_webhook :: "env \<Rightarrow> config \<Rightarrow> string \<Rightarrow> string \<Rightarrow> state \<Rightarrow> exit_path \<times> state" where
  "send_webhook E cfg audio_file transcript_file s =
     (let url = (case webhook_url cfg of Some u \<Rightarrow> u | None \<Rightarrow> [])
      in if url = []
         then (WebhookUrlMissing,
               log_msg DEBUG ''Webhook URL not configured, skipping notification'' s)
         else
           (case files s transcript_file of
              None \<Rightarrow>
                (WebhookPrepareFailed,
                 log_msg ERROR (cross_mark @ '' Error preparing webhook: '' @
                                missing_file transcript_file) s)
            | Some tf \<Rightarrow>
                (case files s audio_file of
                   None \<Rightarrow>
                     (WebhookPrepareFailed,
                      log_msg ERROR (cross_mark @ '' Error preparing webhook: '' @
                                     missing_file audio_file) s)
                 | Some af \<Rightarrow>
                     (case build_started_at E (stem audio_file) s of
                        (Overflow, s1) \<Rightarrow>
                          (WebhookPrepareFailed,
                           log_msg ERROR (cross_mark @
                             '' Error preparing webhook: date value out of range'') s1)
                      | (Parsed st, s1) \<Rightarrow>
                          post_payload E cfg url tf af transcript_file st s1
                      | (Fallback st, s1) \<Rightarrow>
                          post_payload E cfg url tf af transcript_file st s1))))"

text \<open>The command line of the transcription engine.\<close>

definition noscribe_cmd :: "config \<Rightarrow> string \<Rightarrow> string \<Rightarrow> string list" where
  "noscribe_cmd cfg processed_audio transcript_file =
     [executable cfg, noscribe_path cfg, processed_audio, transcript_file, ''--no-gui'',
      ''--language'', (case language cfg of Some l \<Rightarrow> l | None \<Rightarrow> ''auto''),
      ''--speaker-detection'', (case speaker_detection cfg of Some d \<Rightarrow> d | None \<Rightarrow> ''auto'')] @
     (if (case timestamps cfg of Some b \<Rightarrow> b | None \<Rightarrow> True) then [''--timestamps''] else []) @
     (let p = (case pause cfg of Some p \<Rightarrow> p | None \<Rightarrow> ''none'')
      in if p \<noteq> [] \<and> p \<noteq> ''none'' then [''--pause'', p] else []) @
     (case model cfg of Some m \<Rightarrow> if m \<noteq> [] then [''--model'', m] else [] | None \<Rightarrow> [])"

text \<open>The cleanup of the temporary mixed file, after a successful transcription.\<close>

definition cleanup :: "env \<Rightarrow> string \<Rightarrow> string \<Rightarrow> state \<Rightarrow> state" where
  "cleanup E audio_file processed_audio s =
     (if processed_audio \<noteq> audio_file \<and> files s processed_audio \<noteq> None
      then (case unlink_error E processed_audio of
              None \<Rightarrow>
                log_msg DEBUG (''Cleaned up temp file: '' @ processed_audio)
                  (s\<lparr>files := (files s)(processed_audio := None)\<rparr>)
            | Some e \<Rightarrow> log_msg WARNING (''Failed to cleanup temp file: '' @ e) s)
      else s)"

text \<open>\<open>_transcribe_file\<close>.\<close>

definition transcribe_file :: "env \<Rightarrow> config \<Rightarrow> string \<Rightarrow> state \<Rightarrow> exit_path \<times> state" where
  "transcribe_file E cfg audio_file s =
     (let transcript_file = transcript_for cfg audio_file;
          s1 = log_msg INFO (''Starting transcription: '' @ name audio_file) s;
          (processed_audio, s2) = premix_audio E audio_file s1;
          cmd = noscribe_cmd cfg processed_audio transcript_file;
          s3 = log_msg DEBUG (''Command: '' @ join '' '' cmd) s2;
          (r, s4) = run E cmd s3
      in case r of
           Raised e \<Rightarrow>
             (NoScribeLaunchFailed, log_msg ERROR (''Failed to run noScribe: '' @ e) s4)
         | Completed returncode out err \<Rightarrow>
             if returncode \<noteq> 0
             then (NoScribeNonZero,
                   log_msg ERROR (''stderr: '' @ err)
                     (log_msg ERROR (''stdout: '' @ out)
                        (log_msg ERROR (''noScribe failed with exit code '' @
                                        str_int returncode) s4)))
             else let
               s5 = log_msg INFO (''Transcription complete: '' @ name transcript_file @
                                  '' ('' @ elapsed E @ ''s)'') s4;
               s6 = cleanup E audio_file processed_audio s5
             in if (case webhook_enabled cfg of Some b \<Rightarrow> b | None \<Rightarrow> False)
                then send_webhook E cfg audio_file transcript_file s6
                else (WebhookDisabled, s6))"

text \<open>
  \<open>_process_queue\<close>: one iteration of the pipeline loop. It returns the exit of the job
  it processed, if the queue held one.
\<close>

definition process_queue :: "env \<Rightarrow> config \<Rightarrow> state \<Rightarrow> (string \<times> exit_path) option \<times> state" where
  "process_queue E cfg s =
     (case queue_get s of
        (None, s0) \<Rightarrow> (None, s0)
      | (Some audio_file, s0) \<Rightarrow>
          let s1 = s0\<lparr>current_file := Some audio_file, processing := True\<rparr>;
              (x, s2) = transcribe_file E cfg audio_file s1
          in (Some (audio_file, x), s2\<lparr>processing := False, current_file := None\<rparr>))"

text \<open>
  The loop of \<open>start\<close>, \<open>while self.running: self._process_queue()\<close>, for a number of
  iterations; the exits of the jobs processed are collected.
\<close>

fun poll :: "env \<Rightarrow> config \<Rightarrow> nat \<Rightarrow> state \<Rightarrow> (string \<times> exit_path) list \<times> state" where
  "poll E cfg 0 s = ([], s)"
| "poll E cfg (Suc n) s =
     (if running s
      then let (x, s1) = process_queue E cfg s; (xs, s2) = poll E cfg n s1
           in ((case x of Some j \<Rightarrow> [j] | None \<Rightarrow> []) @ xs, s2)
      else ([], s))"


section \<open>Names for intermediate results\<close>

text \<open>The channel count \<open>_premix_audio\<close> works with: the probed one, or 2 after a failure.\<close>

definition probed_channels :: "env \<Rightarrow> string \<Rightarrow> state \<Rightarrow> int" where
  "probed_channels E audio_file s =
     fst (probe_channels audio_file (fst (run E (probe_cmd audio_file) s)))"

text \<open>The path of the temporary file \<open>_premix_audio\<close> mixes into.\<close>

definition mixed_path :: "env \<Rightarrow> string \<Rightarrow> string" where
  "mixed_path E audio_file = child (tempdir E) (stem audio_file @ ''_mixed.wav'')"

text \<open>The result of the transcription subprocess within \<open>_transcribe_file\<close>.\<close>

definition transcription_result :: "env \<Rightarrow> config \<Rightarrow> string \<Rightarrow> state \<Rightarrow> run_result" where
  "transcription_result E cfg audio_file s =
     (let (processed_audio, s2) =
            premix_audio E audio_file
              (log_msg INFO (''Starting transcription: '' @ name audio_file) s);
          cmd = noscribe_cmd cfg processed_audio (transcript_for cfg audio_file)
      in fst (run E cmd (log_msg DEBUG (''Command: '' @ join '' '' cmd) s2)))"

definition transcription_failed :: "run_result \<Rightarrow> bool" where
  "transcription_failed r = (case r of Raised e \<Rightarrow> True | Completed rc out err \<Rightarrow> rc \<noteq> 0)"

text \<open>The state in which \<open>_process_queue\<close> calls \<open>_transcribe_file\<close> for the head of the queue.\<close>

definition taken :: "state \<Rightarrow> state" where
  "taken s = s\<lparr>queue := tl (queue s), current_file := Some (hd (queue s)), processing := True\<rparr>"

text \<open>The requests the webhook handler treats as failed.\<close>

definition request_failed :: "http_result \<Rightarrow> bool" where
  "request_failed r =
     (case r of TransportError e \<Rightarrow> True | Response status \<Rightarrow> 400 \<le> status \<and> status < 600)"

definition enabled :: "config \<Rightarrow> bool" where
  "enabled cfg = (case webhook_enabled cfg of Some b \<Rightarrow> b | None \<Rightarrow> False)"

definition timeout_of :: "config \<Rightarrow> nat" where
  "timeout_of cfg = (case webhook_timeout cfg of Some t \<Rightarrow> t | None \<Rightarrow> 30)"

text \<open>The payload \<open>_send_webhook\<close> builds.\<close>

definition payload_of :: "inode \<Rightarrow> inode \<Rightarrow> string \<Rightarrow> string \<Rightarrow> payload" where
  "payload_of tf af transcript_file st =
     \<lparr>transcript_path = transcript_file, transcript_html = content tf,
      started_at = st, audio_duration_seconds = rounded_duration (st_size af)\<rparr>"




text \<open>
  The six fields of a stem, as the inner \<open>try\<close> reads them: the stem split at \<open>_\<close> into
  two parts, each split at \<open>-\<close> into three, each an integer literal. \<open>None\<close> when any
  of these steps raises.
\<close>

definition fields_of :: "datetime \<Rightarrow> int list" where
  "fields_of dt = [year dt, month dt, day dt, hour dt, minute dt, second dt]"



section \<open>An environment for the examples\<close>

text \<open>
  The probe prints \<open>probe_out\<close>; the mixer succeeds and writes its last argument; the
  transcription engine exits with \<open>rc\<close> and, when that is 0, writes the transcript (its
  fourth argument); the webhook answers with \<open>status\<close>. Local time is UTC-5.
\<close>

definition example_env :: "string \<Rightarrow> int \<Rightarrow> nat \<Rightarrow> env" where
  "example_env probe_out rc status =
     \<lparr>run_process = (\<lambda>cmd fs.
        case cmd of
          [] \<Rightarrow> (Raised ''empty command'', fs)
        | prog # rest \<Rightarrow>
            if prog = ''/opt/homebrew/bin/ffprobe'' then (Completed 0 probe_out [], fs)
            else if prog = ''/opt/homebrew/bin/ffmpeg''
            then (Completed 0 [] [], fs(last cmd \<mapsto> \<lparr>st_size = 1000, content = []\<rparr>))
            else (Completed rc ''out'' ''err'',
                  if rc = 0
                  then fs(cmd ! 3 \<mapsto> \<lparr>st_size = 13, content = ''<html></html>''\<rparr>)
                  else fs)),
      http_post = (\<lambda>url body timeout. Response status),
      unlink_error = (\<lambda>p. None),
      tempdir = ''/tmp'',
      float_repr = (\<lambda>w. ''0.3333333333333333''),
      utcoffset = (\<lambda>t. - 18000),
      edge_conversion = (\<lambda>t. ConversionValueError ''year 0 is out of range''),
      utc_now = 0,
      elapsed = ''1.0''\<rparr>"

definition webhook_config :: config where
  "webhook_config = example_config\<lparr>webhook_enabled := Some True,
     webhook_url := Some ''http://localhost:5678/webhook/transcript''\<rparr>"

section \<open>Properties of the handler\<close>

lemma add_to_queue_pending: "pending_files (add_to_queue p s) p = None"
  by (auto simp: add_to_queue_def queue_add_def log_msg_def Let_def split: option.splits)

lemmas handler_defs = add_to_queue_def queue_add_def log_msg_def timer_run_def fire_due_def
  cancel_def enqueued_for_def

lemma fire_due_other:
  assumes "timers s j = Some t" "args t \<noteq> p"
  shows "pending_files (fire_due fs now j s) p = pending_files s p"
    and "enqueued_for p (fire_due fs now j s) = enqueued_for p s"
    and "\<And>k. k \<noteq> j \<Longrightarrow> timers (fire_due fs now j s) k = timers s k"
    and "\<exists>t'. timers (fire_due fs now j s) j = Some t' \<and> args t' = args t \<and> (finished t \<longrightarrow> t' = t)"
    and "next_timer (fire_due fs now j s) = next_timer s"
  using assms by (auto simp: handler_defs Let_def split: option.splits)

lemma fire_due_noop:
  "timers s j = None \<or> (\<exists>t. timers s j = Some t \<and> (finished t \<or> now < fire_at t)) \<Longrightarrow> fire_due fs now j s = s"
  by (auto simp: handler_defs split: option.splits)


lemma fire_due_timers_ok: "timers_ok s \<Longrightarrow> timers_ok (fire_due fs now j s)"
  unfolding timers_ok_def
  by (auto simp: handler_defs Let_def split: option.splits if_splits; metis option.inject)

lemma step_idle:
  assumes "idle p s"
  shows "idle p (fire_due fs now j s)" and "enqueued_for p (fire_due fs now j s) = enqueued_for p s"
proof -
  show "idle p (fire_due fs now j s)"
    using assms unfolding idle_def
    by (auto simp: handler_defs Let_def split: option.splits if_splits)
  show "enqueued_for p (fire_due fs now j s) = enqueued_for p s"
    using assms unfolding idle_def
    by (auto simp: handler_defs Let_def split: option.splits if_splits)
qed

lemma step_armed_other:
  assumes "armed p T s" "pending_files s p = Some i" "j \<noteq> i"
  shows "armed p T (fire_due fs now j s)"
    and "pending_files (fire_due fs now j s) p = Some i"
    and "enqueued_for p (fire_due fs now j s) = enqueued_for p s"
proof -
  consider "timers s j = None" | t where "timers s j = Some t" "args t = p" | t where "timers s j = Some t" "args t \<noteq> p"
    by (cases "timers s j") auto
  then have "armed p T (fire_due fs now j s) \<and> pending_files (fire_due fs now j s) p = Some i
     \<and> enqueued_for p (fire_due fs now j s) = enqueued_for p s"
  proof cases
    case 1
    then have "fire_due fs now j s = s" by (simp add: fire_due_noop)
    with assms show ?thesis by simp
  next
    case 2
    with assms have "finished t" unfolding armed_def by auto
    with 2 have "fire_due fs now j s = s" by (simp add: fire_due_noop)
    with assms show ?thesis by simp
  next
    case 3
    note o = fire_due_other[OF 3, where fs=fs and now=now]
    have "armed p T (fire_due fs now j s)"
      using assms o(1) o(3) o(4) 3 unfolding armed_def
      by (metis option.inject)
    with o assms show ?thesis by simp
  qed
  then show "armed p T (fire_due fs now j s)"
    and "pending_files (fire_due fs now j s) p = Some i"
    and "enqueued_for p (fire_due fs now j s) = enqueued_for p s" by auto
qed


lemma fire_due_next_timer: "next_timer (fire_due fs now j s) = next_timer s"
  by (auto simp: handler_defs Let_def split: option.splits if_splits)

lemma step_armed_live:
  assumes "armed p T s" "pending_files s p = Some i" "T \<le> now"
  shows "idle p (fire_due fs now i s)"
    and "enqueued_for p (fire_due fs now i s) = enqueued_for p s @ (if present fs p T then [T] else [])"
proof -
  from assms have t: "timers s i = Some \<lparr>args = p, fire_at = T, finished = False\<rparr>"
    and rest: "\<forall>j t. j \<noteq> i \<longrightarrow> timers s j = Some t \<longrightarrow> args t = p \<longrightarrow> finished t"
    unfolding armed_def by auto
  show "idle p (fire_due fs now i s)"
    using t rest assms(3) unfolding idle_def
    by (auto simp: handler_defs Let_def split: option.splits if_splits)
  show "enqueued_for p (fire_due fs now i s) = enqueued_for p s @ (if present fs p T then [T] else [])"
    using t assms(3)
    by (auto simp: handler_defs present_def Let_def split: option.splits if_splits)
qed

lemma step_armed_wait:
  assumes "armed p T s" "pending_files s p = Some i" "now < T"
  shows "fire_due fs now i s = s"
proof -
  from assms have "timers s i = Some \<lparr>args = p, fire_at = T, finished = False\<rparr>"
    unfolding armed_def by auto
  with assms(3) show ?thesis by (simp add: fire_due_def)
qed

lemma fold_timers_ok: "timers_ok s \<Longrightarrow> timers_ok (fold (fire_due fs now) js s)"
  by (induction js arbitrary: s) (simp_all add: fire_due_timers_ok)

lemma fold_idle:
  "idle p s \<Longrightarrow> idle p (fold (fire_due fs now) js s) \<and>
     enqueued_for p (fold (fire_due fs now) js s) = enqueued_for p s"
  by (induction js arbitrary: s) (simp_all add: step_idle)

lemma fold_armed_skip:
  "armed p T s \<Longrightarrow> pending_files s p = Some i \<Longrightarrow> i \<notin> set js \<Longrightarrow>
     armed p T (fold (fire_due fs now) js s) \<and>
     pending_files (fold (fire_due fs now) js s) p = Some i \<and>
     enqueued_for p (fold (fire_due fs now) js s) = enqueued_for p s"
proof (induction js arbitrary: s)
  case Nil
  then show ?case by simp
next
  case (Cons j js)
  then have ji: "j \<noteq> i" by auto
  note st = step_armed_other[OF Cons.prems(1) Cons.prems(2) ji, where fs=fs and now=now]
  from Cons.prems(3) have "i \<notin> set js" by simp
  from Cons.IH[OF st(1) st(2) this] st(3) show ?case by simp
qed

lemma clock_files_frame [simp]:
  "timers_ok (s\<lparr>clock := c, files := f\<rparr>) = timers_ok s"
  "idle p (s\<lparr>clock := c, files := f\<rparr>) = idle p s"
  "armed p T (s\<lparr>clock := c, files := f\<rparr>) = armed p T s"
  "enqueued_for p (s\<lparr>clock := c, files := f\<rparr>) = enqueued_for p s"
  by (simp_all add: timers_ok_def idle_def armed_def enqueued_for_def)

lemma tracks_clock_files [simp]: "tracks p a (s\<lparr>clock := c, files := f\<rparr>) = tracks p a s"
  by (simp add: tracks_def split: option.splits)

lemma advance_clock [simp]: "clock (advance fs now s) = now"
  by (simp add: advance_def)

lemma advance_tracks:
  assumes "tracks p a s"
  shows "tracks p (settle fs p now a) (advance fs now s)"
proof (cases "fst a")
  case None
  with assms have "idle p s" by (simp add: tracks_def)
  from fold_idle[OF this, of fs now "[0..<next_timer s]"] assms None
  show ?thesis
    by (simp add: advance_def tracks_def settle_def fold_timers_ok)
next
  case (Some T)
  with assms have ar: "armed p T s" and ok: "timers_ok s" by (simp_all add: tracks_def)
  then obtain i where i: "pending_files s p = Some i" unfolding armed_def by auto
  with ok have lt: "i < next_timer s" unfolding timers_ok_def by blast
  then have sp: "[0..<next_timer s] = [0..<i] @ i # [Suc i..<next_timer s]"
    by (metis le_add1 less_imp_add_positive upt_add_eq_append upt_conv_Cons zero_le)
  define s1 where "s1 = fold (fire_due fs now) [0..<i] s"
  define s2 where "s2 = fire_due fs now i s1"
  define s3 where "s3 = fold (fire_due fs now) [Suc i..<next_timer s] s2"
  have s3: "fold (fire_due fs now) [0..<next_timer s] s = s3"
    by (subst sp) (simp add: s1_def s2_def s3_def)
  have ok3: "timers_ok s3"
    unfolding s3[symmetric] using ok by (rule fold_timers_ok)
  have a1: "armed p T s1" "pending_files s1 p = Some i" "enqueued_for p s1 = enqueued_for p s"
    using fold_armed_skip[OF ar i, of "[0..<i]" fs now] by (simp_all add: s1_def)
  show ?thesis
  proof (cases "T \<le> now")
    case True
    have "idle p s2" "enqueued_for p s2 = enqueued_for p s1 @ (if present fs p T then [T] else [])"
      using step_armed_live[OF a1(1) a1(2) True, of fs] by (simp_all add: s2_def)
    with fold_idle[of p s2 fs now "[Suc i..<next_timer s]"]
    have "idle p s3" "enqueued_for p s3 = enqueued_for p s1 @ (if present fs p T then [T] else [])"
      by (simp_all add: s3_def)
    with ok3 a1(3) assms Some True show ?thesis
      by (simp add: advance_def s3 tracks_def settle_def)
  next
    case False
    then have "s2 = s1" using step_armed_wait[OF a1(1) a1(2), of now fs] by (simp add: s2_def)
    with fold_armed_skip[OF a1(1) a1(2), of "[Suc i..<next_timer s]" fs now]
    have "armed p T s3" "enqueued_for p s3 = enqueued_for p s1"
      by (simp_all add: s3_def)
    with ok3 a1(3) assms Some False show ?thesis
      by (simp add: advance_def s3 tracks_def settle_def)
  qed
qed


lemma cancel_frame:
  "pending_files (cancel i s) = pending_files s"
  "next_timer (cancel i s) = next_timer s"
  "enqueued_at (cancel i s) = enqueued_at s"
  "clock (cancel i s) = clock s"
  by (simp_all add: cancel_def split: option.splits)

lemma cancel_timers:
  "timers (cancel i s) j =
     (if j = i then map_option (\<lambda>t. t\<lparr>finished := True\<rparr>) (timers s i) else timers s j)"
  by (simp add: cancel_def split: option.splits)

lemma on_created_ignored:
  "\<not> is_for p ev \<Longrightarrow> is_directory ev \<or> lower (suffix (src_path ev)) \<noteq> ''.wav'' \<Longrightarrow> on_created d ev s = s"
  by (auto simp: on_created_def)

lemma on_created_timers_ok:
  assumes "timers_ok s"
  shows "timers_ok (on_created d ev s)"
proof (cases "is_directory ev \<or> lower (suffix (src_path ev)) \<noteq> ''.wav''")
  case True
  then have "on_created d ev s = s" by (auto simp: on_created_def)
  with assms show ?thesis by simp
next
  case False
  from assms have fresh: "timers s (next_timer s) = None"
    unfolding timers_ok_def by (metis less_irrefl not_Some_eq)
  show ?thesis
  proof (cases "pending_files s (src_path ev)")
    case None
    with False assms fresh show ?thesis
      unfolding timers_ok_def
      by (auto simp: on_created_def log_msg_def Let_def less_Suc_eq)
  next
    case (Some i0)
    with False assms fresh show ?thesis
      unfolding timers_ok_def
      by (auto simp: on_created_def log_msg_def Let_def less_Suc_eq cancel_frame cancel_timers;
          metis option.inject)
  qed
qed


lemma on_created_other:
  assumes "tracks p a s" "\<not> is_for p ev"
  shows "tracks p a (on_created d ev s)"
proof (cases "is_directory ev \<or> lower (suffix (src_path ev)) \<noteq> ''.wav''")
  case True
  then have "on_created d ev s = s" by (auto simp: on_created_def)
  with assms show ?thesis by simp
next
  case False
  with assms(2) have ne: "src_path ev \<noteq> p" by (auto simp: is_for_def)
  from assms have ok: "timers_ok s" by (simp add: tracks_def)
  then have fresh: "timers s (next_timer s) = None"
    unfolding timers_ok_def by (metis less_irrefl not_Some_eq)
  have enq: "enqueued_for p (on_created d ev s) = enqueued_for p s"
    by (auto simp: on_created_def log_msg_def Let_def enqueued_for_def cancel_frame split: option.splits)
  have pend: "pending_files (on_created d ev s) p = pending_files s p"
    using ne by (auto simp: on_created_def log_msg_def Let_def cancel_frame split: option.splits)
  have tm: "\<And>j t. timers s j = Some t \<Longrightarrow> args t = p \<Longrightarrow> timers (on_created d ev s) j = Some t"
  proof -
    fix j t assume jt: "timers s j = Some t" "args t = p"
    with fresh have j1: "j \<noteq> next_timer s" by auto
    show "timers (on_created d ev s) j = Some t"
    proof (cases "pending_files s (src_path ev)")
      case None
      with False jt j1 show ?thesis
        by (auto simp: on_created_def log_msg_def Let_def)
    next
      case (Some i0)
      with ok obtain t0 where "timers s i0 = Some t0" "args t0 = src_path ev"
        unfolding timers_ok_def by blast
      with jt ne have "j \<noteq> i0" by auto
      with Some False jt j1 show ?thesis
        by (auto simp: on_created_def log_msg_def Let_def cancel_frame cancel_timers)
    qed
  qed
  have tm': "\<And>j t. timers (on_created d ev s) j = Some t \<Longrightarrow> args t = p \<Longrightarrow>
      \<exists>t0. timers s j = Some t0 \<and> args t0 = p \<and> (finished t0 \<longrightarrow> finished t)"
    using False ne
    by (auto simp: on_created_def log_msg_def Let_def cancel_frame cancel_timers
        split: option.splits if_splits)
  show ?thesis
  proof (cases "fst a")
    case None
    with assms have "idle p s" by (simp add: tracks_def)
    then have "idle p (on_created d ev s)"
      unfolding idle_def using tm' by blast
    with None assms enq on_created_timers_ok[OF ok] show ?thesis by (simp add: tracks_def)
  next
    case (Some T)
    with assms have "armed p T s" by (simp add: tracks_def)
    then obtain i where i: "pending_files s p = Some i"
      "timers s i = Some \<lparr>args = p, fire_at = T, finished = False\<rparr>"
      "\<forall>j t. j \<noteq> i \<longrightarrow> timers s j = Some t \<longrightarrow> args t = p \<longrightarrow> finished t"
      unfolding armed_def by auto
    have "timers (on_created d ev s) i = Some \<lparr>args = p, fire_at = T, finished = False\<rparr>"
      using tm[OF i(2)] by simp
    moreover have "\<forall>j t. j \<noteq> i \<longrightarrow> timers (on_created d ev s) j = Some t \<longrightarrow> args t = p \<longrightarrow> finished t"
      using tm' i(3) by blast
    ultimately have "armed p T (on_created d ev s)"
      unfolding armed_def using pend i(1) by auto
    with Some assms enq on_created_timers_ok[OF ok] show ?thesis by (simp add: tracks_def)
  qed
qed

lemma on_created_for:
  assumes "tracks p a s" "is_for p ev" "lower (suffix p) = ''.wav''"
  shows "tracks p (Some (clock s + d), snd a) (on_created d ev s)"
proof -
  from assms(2) have ev: "\<not> is_directory ev" "src_path ev = p" by (auto simp: is_for_def)
  from assms have ok: "timers_ok s" by (simp add: tracks_def)
  then have fresh: "timers s (next_timer s) = None"
    unfolding timers_ok_def by (metis less_irrefl not_Some_eq)
  have enq: "enqueued_for p (on_created d ev s) = enqueued_for p s"
    by (auto simp: on_created_def log_msg_def Let_def enqueued_for_def cancel_frame split: option.splits)
  have others: "\<forall>j t. j \<noteq> next_timer s \<longrightarrow> timers (on_created d ev s) j = Some t \<longrightarrow> args t = p \<longrightarrow> finished t"
  proof (cases "fst a")
    case None
    with assms have "idle p s" by (simp add: tracks_def)
    then show ?thesis
      unfolding idle_def using ev assms(3)
      by (auto simp: on_created_def log_msg_def Let_def cancel_frame cancel_timers
        split: option.splits if_splits)
  next
    case (Some T)
    with assms have "armed p T s" by (simp add: tracks_def)
    then obtain i where i: "pending_files s p = Some i"
      "\<forall>j t. j \<noteq> i \<longrightarrow> timers s j = Some t \<longrightarrow> args t = p \<longrightarrow> finished t"
      unfolding armed_def by auto
    then show ?thesis
      using ev assms(3)
      by (auto simp: on_created_def log_msg_def Let_def cancel_frame cancel_timers
        split: option.splits if_splits)
  qed
  have new: "pending_files (on_created d ev s) p = Some (next_timer s)"
    "timers (on_created d ev s) (next_timer s) = Some \<lparr>args = p, fire_at = clock s + d, finished = False\<rparr>"
    using ev assms(3)
    by (auto simp: on_created_def log_msg_def Let_def cancel_frame cancel_timers split: option.splits)
  from new others have "armed p (clock s + d) (on_created d ev s)"
    unfolding armed_def by blast
  with enq assms on_created_timers_ok[OF ok] show ?thesis by (simp add: tracks_def)
qed

lemma simulate_tracks:
  "tracks p a s \<Longrightarrow> lower (suffix p) = ''.wav'' \<Longrightarrow>
     tracks p (track fs d p evs a) (simulate fs d evs s)"
proof (induction evs arbitrary: a s)
  case Nil
  then show ?case by simp
next
  case (Cons e evs)
  obtain t ev where e: "e = (t, ev)" by (cases e)
  from Cons.prems(1) have adv: "tracks p (settle fs p t a) (advance fs t s)"
    by (rule advance_tracks)
  show ?case
  proof (cases "is_for p ev")
    case True
    from on_created_for[OF adv True Cons.prems(2), of d]
    have "tracks p (Some (t + d), snd (settle fs p t a)) (on_created d ev (advance fs t s))" by simp
    from Cons.IH[OF this Cons.prems(2)] True show ?thesis by (simp add: e Let_def)
  next
    case False
    from on_created_other[OF adv False, of d]
    have "tracks p (settle fs p t a) (on_created d ev (advance fs t s))" .
    from Cons.IH[OF this Cons.prems(2)] False show ?thesis by (simp add: e Let_def)
  qed
qed

lemma init_tracks: "tracks p (None, []) (init fs0)"
  by (simp add: tracks_def timers_ok_def idle_def enqueued_for_def init_def)


lemma settle_None [simp]: "settle fs p t (None, L) = (None, L)"
  by (simp add: settle_def)

lemma track_quiet:
  "times_for p evs = [] \<Longrightarrow> track fs d p evs (None, L) = (None, L)"
  by (induction evs) (auto simp: times_for_def split: if_splits)

lemma track_tail:
  "times_for p evs = [] \<Longrightarrow> T \<le> h \<Longrightarrow>
     settle fs p h (track fs d p evs (Some T, L)) =
       (None, if present fs p T then L @ [T] else L)"
proof (induction evs)
  case Nil
  then show ?case by (simp add: settle_def)
next
  case (Cons e evs)
  obtain t ev where e: "e = (t, ev)" by (cases e)
  from Cons.prems have nf: "\<not> is_for p ev" and rest: "times_for p evs = []"
    by (auto simp: times_for_def e split: if_splits)
  show ?case
  proof (cases "T \<le> t")
    case True
    then have "settle fs p t (Some T, L) = (None, if present fs p T then L @ [T] else L)"
      by (simp add: settle_def)
    with nf rest show ?thesis by (simp add: e track_quiet)
  next
    case False
    then have "settle fs p t (Some T, L) = (Some T, L)" by (simp add: settle_def)
    with nf Cons.IH[OF rest Cons.prems(2)] show ?thesis by (simp add: e)
  qed
qed

lemma track_burst:
  "sorted (map fst evs) \<Longrightarrow> times_for p evs = ts \<Longrightarrow> ts \<noteq> [] \<Longrightarrow>
   successively (\<lambda>a b. b < a + d) ts \<Longrightarrow> (\<forall>T. To = Some T \<longrightarrow> hd ts < T) \<Longrightarrow>
   last ts + d \<le> h \<Longrightarrow>
     settle fs p h (track fs d p evs (To, L)) =
       (None, if present fs p (last ts + d) then L @ [last ts + d] else L)"
proof (induction evs arbitrary: To ts)
  case Nil
  then show ?case by (simp add: times_for_def)
next
  case (Cons e evs)
  obtain t ev where e: "e = (t, ev)" by (cases e)
  from Cons.prems(1) have srt: "sorted (map fst evs)" and le: "\<forall>x \<in> set (map fst evs). t \<le> x"
    by (auto simp: e)
  show ?case
  proof (cases "is_for p ev")
    case True
    with Cons.prems(2) have ts: "ts = t # times_for p evs" by (auto simp: times_for_def e)
    with Cons.prems(5) have "settle fs p t (To, L) = (To, L)"
      by (cases To) (auto simp: settle_def)
    with True have step: "track fs d p (e # evs) (To, L) = track fs d p evs (Some (t + d), L)"
      by (simp add: e)
    show ?thesis
    proof (cases "times_for p evs")
      case Nil
      with ts Cons.prems(6) track_tail[OF Nil, of "t + d" h fs d L] show ?thesis
        by (simp add: step)
    next
      case (Cons u us)
      with ts Cons.prems(4) have "successively (\<lambda>a b. b < a + d) (times_for p evs)" "u < t + d"
        by simp_all
      with Cons.IH[OF srt refl, of "Some (t + d)"] Cons ts Cons.prems(6) show ?thesis
        by (simp add: step)
    qed
  next
    case False
    with Cons.prems(2) have ts: "times_for p evs = ts" by (auto simp: times_for_def e)
    with Cons.prems(3) have "hd ts \<in> set (map fst evs)"
      by (metis (no_types, lifting) filter_is_subset hd_in_set image_mono list.set_map subsetD times_for_def)
    with le have "t \<le> hd ts" by blast
    with Cons.prems(5) have "settle fs p t (To, L) = (To, L)"
      by (cases To) (auto simp: settle_def)
    with False have "track fs d p (e # evs) (To, L) = track fs d p evs (To, L)"
      by (simp add: e)
    with Cons.IH[OF srt ts Cons.prems(3) Cons.prems(4) Cons.prems(5) Cons.prems(6)] show ?thesis
      by simp
  qed
qed

text \<open>
  Claim C1, as the code has it. Let a path \<open>p\<close> with the suffix \<open>.wav\<close> (in any case)
  receive at least two creation notifications, each less than \<open>d\<close> ticks after the
  previous one, among notifications for any other paths. Then, once time has passed the
  last of them by \<open>d\<close>, \<open>queue.add\<close> has been called for \<open>p\<close> exactly once, at the instant
  (last notification + \<open>d\<close>), if the file exists and is not empty at that instant, and
  never if it does not. Timer callbacks and notifications are taken to run one at a time,
  at the instants they are due.
\<close>

theorem debounce_burst:
  assumes "lower (suffix p) = ''.wav''"
    and "sorted (map fst evs)"
    and "2 \<le> length (times_for p evs)"
    and "successively (\<lambda>a b. b < a + d) (times_for p evs)"
    and "last (times_for p evs) + d \<le> horizon"
  shows "enqueued_for p (advance fs horizon (simulate fs d evs (init fs0))) =
           (if present fs p (last (times_for p evs) + d) then [last (times_for p evs) + d] else [])"
proof -
  from assms(3) have ne: "times_for p evs \<noteq> []" by auto
  have "tracks p (settle fs p horizon (track fs d p evs (None, [])))
          (advance fs horizon (simulate fs d evs (init fs0)))"
    by (intro advance_tracks simulate_tracks init_tracks assms(1))
  moreover have "settle fs p horizon (track fs d p evs (None, [])) =
      (None, if present fs p (last (times_for p evs) + d) then [] @ [last (times_for p evs) + d] else [])"
    using track_burst[OF assms(2) refl ne assms(4) _ assms(5), of None fs "[]"] by simp
  ultimately show ?thesis by (simp add: tracks_def)
qed

theorem debounce_burst_witness:
  "enqueued_for ''/r/a.wav''
     (advance (\<lambda>_. [''/r/a.wav'' \<mapsto> \<lparr>st_size = 10, content = []\<rparr>]) 10
       (simulate (\<lambda>_. [''/r/a.wav'' \<mapsto> \<lparr>st_size = 10, content = []\<rparr>]) 2
          [(0, \<lparr>is_directory = False, src_path = ''/r/a.wav''\<rparr>),
           (1, \<lparr>is_directory = False, src_path = ''/r/a.wav''\<rparr>)]
          (init Map.empty))) = [3]"
  using debounce_burst[of "''/r/a.wav''"
      "[(0, \<lparr>is_directory = False, src_path = ''/r/a.wav''\<rparr>),
        (1, \<lparr>is_directory = False, src_path = ''/r/a.wav''\<rparr>)]" 2 10
      "(\<lambda>_. [''/r/a.wav'' \<mapsto> \<lparr>st_size = 10, content = []\<rparr>])" Map.empty]
  by (simp add: lower_def suffix_def name_def has_suffix_def times_for_def is_for_def present_def)

text \<open>
  The claim as stated promises one job for every such path. Two notifications for
  \<open>/r/a.wav\<close> at the instants 0 and 1 with \<open>d = 2\<close>, the file gone again when the timer
  ends at 3: no job is enqueued.
\<close>

theorem debounce_burst_counterexample:
  "times_for ''/r/a.wav''
      [(0, \<lparr>is_directory = False, src_path = ''/r/a.wav''\<rparr>),
       (1, \<lparr>is_directory = False, src_path = ''/r/a.wav''\<rparr>)] = [0, 1] \<and>
   enqueued_for ''/r/a.wav''
     (advance (\<lambda>_. Map.empty) 10
       (simulate (\<lambda>_. Map.empty) 2
          [(0, \<lparr>is_directory = False, src_path = ''/r/a.wav''\<rparr>),
           (1, \<lparr>is_directory = False, src_path = ''/r/a.wav''\<rparr>)]
          (init Map.empty))) = []"
  by (simp add: lower_def suffix_def name_def has_suffix_def handler_defs advance_def
      on_created_def init_def times_for_def is_for_def Let_def)

text \<open>
  Claim C9. When the timer thread of an unfinished timer runs, \<open>pending_files\<close> has no
  entry for the timer's path afterwards, whether the file was enqueued or dropped (the
  file system \<open>fs\<close> is arbitrary); and a creation event for the same path that follows
  cancels nothing: it stores one new, unfinished timer and leaves all others as they are.
\<close>

theorem fired_timer_clears_pending:
  assumes "timers s i = Some t" and "\<not> finished t" and "lower (suffix (args t)) = ''.wav''"
  shows "pending_files (timer_run fs i s) (args t) = None \<and>
         timers (on_created d \<lparr>is_directory = False, src_path = args t\<rparr> (timer_run fs i s)) =
           (timers (timer_run fs i s))(next_timer (timer_run fs i s) \<mapsto>
              \<lparr>args = args t, fire_at = clock (timer_run fs i s) + d, finished = False\<rparr>)"
proof -
  have gone: "pending_files (timer_run fs i s) (args t) = None"
    using assms(1) assms(2) by (simp add: timer_run_def Let_def add_to_queue_pending)
  then show ?thesis
    using assms(3) by (simp add: on_created_def log_msg_def Let_def)
qed

theorem fired_timer_clears_pending_witness:
  "pending_files
     (timer_run (\<lambda>_. Map.empty) 0
        (on_created 2 \<lparr>is_directory = False, src_path = ''/r/a.wav''\<rparr> (init Map.empty)))
     ''/r/a.wav'' = None"
  using fired_timer_clears_pending[of
      "on_created 2 \<lparr>is_directory = False, src_path = ''/r/a.wav''\<rparr> (init Map.empty)" 0
      "\<lparr>args = ''/r/a.wav'', fire_at = 2, finished = False\<rparr>" "\<lambda>_. Map.empty" 2]
  by (simp add: lower_def suffix_def name_def has_suffix_def on_created_def init_def
      log_msg_def Let_def)


section \<open>Properties of the startup reconciler\<close>

lemma reconcile_one_files [simp]: "files (reconcile_one cfg w s) = files s"
  by (simp add: reconcile_one_def queue_add_def log_msg_def)

lemma reconcile_one_queue:
  "queue (reconcile_one cfg w s) =
     queue s @ (if files s (transcript_for cfg w) = None then [w] else [])"
  by (simp add: reconcile_one_def queue_add_def log_msg_def)

lemma fold_reconcile:
  "files (fold (reconcile_one cfg) ws s) = files s \<and>
   queue (fold (reconcile_one cfg) ws s) =
     queue s @ filter (\<lambda>w. files s (transcript_for cfg w) = None) ws"
  by (induction ws arbitrary: s) (simp_all add: reconcile_one_queue)

text \<open>
  Claim C8, as the code has it. One run of the reconciler appends to the queue exactly
  the \<open>*.wav\<close> entries of the recordings directory that have no transcript
  \<open>transcripts_dir/stem.html\<close>, in scan order, each once. The reconciler keeps no record of
  what it enqueued: a second run right after the first (no transcript written in between)
  appends the same files a second time.
\<close>

theorem reconciler_enqueues_untranscribed:
  "queue (process_existing_files cfg entries s) = queue s @ untranscribed cfg (files s) entries \<and>
   queue (process_existing_files cfg entries (process_existing_files cfg entries s)) =
     queue s @ untranscribed cfg (files s) entries @ untranscribed cfg (files s) entries"
  by (simp add: process_existing_files_def untranscribed_def fold_reconcile)

theorem reconciler_enqueues_untranscribed_witness:
  "queue (process_existing_files example_config [''a.wav'', ''b.wav'', ''c.txt'']
            (init [''/txt/b.html'' \<mapsto> \<lparr>st_size = 1, content = ''x''\<rparr>])) = [''/rec/a.wav'']"
  using reconciler_enqueues_untranscribed[of example_config "[''a.wav'', ''b.wav'', ''c.txt'']"
      "init [''/txt/b.html'' \<mapsto> \<lparr>st_size = 1, content = ''x''\<rparr>]"]
  by (simp add: untranscribed_def glob_wav_def child_def transcript_for_def init_def
      example_config_def stem_def name_def has_suffix_def)

text \<open>
  The claim as stated promises that a second run adds no duplicate. With one recording
  \<open>a.wav\<close> and no transcript, two runs in a row leave the file in the queue twice.
\<close>

theorem reconciler_twice_counterexample:
  "queue (process_existing_files example_config [''a.wav'']
            (process_existing_files example_config [''a.wav''] (init Map.empty))) =
     [''/rec/a.wav'', ''/rec/a.wav'']"
  by (simp add: process_existing_files_def reconcile_one_def queue_add_def log_msg_def
      glob_wav_def child_def transcript_for_def init_def example_config_def)


section \<open>Properties of the floating-point model\<close>



lemma pow2_pos [simp]: "0 < pow2 e"
  by (simp add: pow2_def)

lemma pow2_add: "pow2 (a + b) = pow2 a * pow2 b"
  by (simp add: pow2_def power_int_add)

lemma pow2_mono: "a \<le> b \<Longrightarrow> pow2 a \<le> pow2 b"
  by (simp add: pow2_def power_int_increasing)

lemma pow2_nat: "0 \<le> e \<Longrightarrow> pow2 e = 2 ^ nat e"
  by (simp add: pow2_def power_int_def)

lemma pow2_cancel [simp]: "pow2 a * pow2 (- a) = 1"
  using pow2_add[of a "- a"] by (simp add: pow2_def)

lemma py_round_err: "\<bar>of_int (py_round y) - y\<bar> \<le> 1 / 2"
proof -
  define f where "f = \<lfloor>y\<rfloor>"
  have b: "of_int f \<le> y" "y < of_int f + 1"
    unfolding f_def by linarith+
  have "py_round y = f \<and> y - of_int f \<le> 1 / 2 \<or> py_round y = f + 1 \<and> 1 / 2 \<le> y - of_int f"
    unfolding py_round_def Let_def f_def[symmetric] by auto
  with b show ?thesis by (auto simp: abs_le_iff)
qed

lemma py_round_int [simp]: "py_round (of_int k) = k"
  by (simp add: py_round_def)

lemma py_round_zero [simp]: "py_round 0 = 0"
  by (simp add: py_round_def)

lemma py_round_nonneg: "0 \<le> y \<Longrightarrow> 0 \<le> py_round y"
  by (auto simp: py_round_def Let_def)

lemma exponent_le:
  assumes "0 < x"
  shows "pow2 (exponent x) \<le> x"
proof -
  obtain n d where q: "quotient_of x = (n, d)" by (cases "quotient_of x")
  then have d: "0 < d" and x: "x = of_int n / of_int d"
    by (auto simp: quotient_of_denom_pos quotient_of_div)
  with assms have n: "0 < n" by (simp add: zero_less_divide_iff)
  define e0 where "e0 = bitlen n - bitlen d"
  have ex: "exponent x = (if pow2 e0 \<le> x then e0 else e0 - 1)"
    using assms q by (simp add: exponent_def e0_def)
  have "pow2 (e0 - 1) \<le> x"
  proof -
    have bn: "2 ^ nat (bitlen n - 1) \<le> n" using bitlen_bounds[OF n] by simp
    have bd: "d < 2 ^ nat (bitlen d)" using bitlen_bounds[OF d] by simp
    have n1: "1 \<le> bitlen n" using n by (simp add: bitlen_alt_def)
    have d0: "0 \<le> bitlen d" by (rule bitlen_nonneg)
    have "pow2 (bitlen n - 1) \<le> of_int n"
      using bn n1 by (simp add: pow2_nat)
    moreover have "of_int d \<le> pow2 (bitlen d)"
      using bd d0 by (simp add: pow2_nat)
    moreover have "pow2 (e0 - 1) * pow2 (bitlen d) = pow2 (bitlen n - 1)"
      by (simp add: pow2_add[symmetric] e0_def)
    ultimately have "pow2 (e0 - 1) * of_int d \<le> of_int n"
      by (smt (verit) mult_left_mono pow2_pos less_imp_le order_trans)
    with d show ?thesis by (simp add: x pos_le_divide_eq)
  qed
  with ex show ?thesis by auto
qed


lemma to_double_pos_eq:
  "0 < x \<Longrightarrow> to_double x = of_int (py_round (x * pow2 (52 - exponent x))) * pow2 (exponent x - 52)"
  by (simp add: to_double_def Let_def)

lemma pow2_back: "x * pow2 (52 - e) * pow2 (e - 52) = x"
proof -
  have "pow2 (52 - e) * pow2 (e - 52) = 1"
    using pow2_add[of "52 - e" "e - 52"] by (simp add: pow2_def)
  then show ?thesis by (simp add: mult.assoc)
qed

lemma to_double_err:
  assumes "0 < x"
  shows "\<bar>to_double x - x\<bar> \<le> x / 2 ^ 53"
proof -
  define e where "e = exponent x"
  define y where "y = x * pow2 (52 - e)"
  define m where "m = py_round y"
  have td: "to_double x = of_int m * pow2 (e - 52)"
    using assms by (simp add: to_double_pos_eq e_def y_def m_def)
  have xy: "x = y * pow2 (e - 52)"
    by (simp add: y_def pow2_back)
  have "to_double x - x = of_int m * pow2 (e - 52) - y * pow2 (e - 52)"
    by (metis td xy)
  then have "to_double x - x = (of_int m - y) * pow2 (e - 52)"
    by (simp add: algebra_simps)
  then have "\<bar>to_double x - x\<bar> = \<bar>of_int m - y\<bar> * pow2 (e - 52)"
    by (simp add: abs_mult abs_of_pos)
  also have "\<dots> \<le> 1 / 2 * pow2 (e - 52)"
    using py_round_err[of y] by (simp add: m_def mult_right_mono less_imp_le)
  also have "1 / 2 * pow2 (e - 52) = pow2 e / 2 ^ 53"
  proof -
    have "pow2 (e - 52) = pow2 e * pow2 (- 52)"
      using pow2_add[of e "- 52"] by simp
    then show ?thesis by (simp add: pow2_def power_int_minus field_simps)
  qed
  also have "\<dots> \<le> x / 2 ^ 53"
    using exponent_le[OF assms] by (simp add: e_def divide_right_mono)
  finally show ?thesis .
qed

lemma to_double_exact:
  assumes "0 < x" and "x * pow2 (52 - exponent x) = of_int k"
  shows "to_double x = x"
  using assms pow2_back[of x "exponent x"] by (simp add: to_double_pos_eq)

lemma exponent_less:
  assumes "0 < x" "x < pow2 b"
  shows "exponent x < b"
proof (rule ccontr)
  assume "\<not> exponent x < b"
  then have "pow2 b \<le> pow2 (exponent x)" by (simp add: pow2_mono)
  with exponent_le[OF assms(1)] assms(2) show False by simp
qed

lemma to_double_int:
  assumes "0 < k" "k < 2 ^ 53"
  shows "to_double (of_int k) = of_int k"
proof -
  have pos: "(0::rat) < of_int k" using assms by simp
  have "(of_int k :: rat) < pow2 53"
    using assms(2) by (simp add: pow2_nat)
  from exponent_less[OF pos this] have "0 \<le> 52 - exponent (of_int k)" by simp
  then have "of_int k * pow2 (52 - exponent (of_int k)) =
      (of_int (k * 2 ^ nat (52 - exponent (of_int k))) :: rat)"
    by (simp add: pow2_nat)
  from to_double_exact[OF pos this] show ?thesis .
qed

lemma to_double_nonneg: "0 \<le> x \<Longrightarrow> 0 \<le> to_double x"
  by (cases "x = 0") (simp_all add: to_double_def Let_def py_round_nonneg less_imp_le)

lemma duration_seconds_nonneg: "0 \<le> duration_seconds n"
  by (simp add: duration_seconds_def Let_def less_imp_le)

lemma duration_seconds_header: "n \<le> 44 \<Longrightarrow> duration_seconds n = 0"
proof -
  assume "n \<le> 44"
  then have "of_int (int n - 44) / 32000 \<le> (0::rat)" by (simp add: divide_nonpos_pos)
  then have "to_double (of_int (int n - 44) / 32000) \<le> 0"
    by (auto simp: to_double_def Let_def sgn_if mult_nonpos_nonneg py_round_nonneg less_imp_le
        intro!: mult_nonpos_nonneg)
  then show ?thesis by (simp add: duration_seconds_def Let_def)
qed

lemma rounded_duration_nonneg: "0 \<le> rounded_duration n"
  by (simp add: rounded_duration_def py_round_nonneg duration_seconds_nonneg)

lemma weight_err:
  assumes "2 < C" "C < 2 ^ 53"
  shows "\<bar>weight C - 1 / of_int C\<bar> \<le> 1 / (of_int C * 2 ^ 53)"
proof -
  have "to_double (of_int C) = of_int C" using assms by (intro to_double_int) auto
  then have w: "weight C = to_double (1 / of_int C)" by (simp add: weight_def)
  have "(0::rat) < 1 / of_int C" using assms by simp
  from to_double_err[OF this] show ?thesis by (simp add: w)
qed




lemma exponent_upper:
  assumes "0 < x"
  shows "x < pow2 (exponent x + 1)"
proof -
  obtain n d where q: "quotient_of x = (n, d)" by (cases "quotient_of x")
  then have d: "0 < d" and x: "x = of_int n / of_int d"
    by (auto simp: quotient_of_denom_pos quotient_of_div)
  with assms have n: "0 < n" by (simp add: zero_less_divide_iff)
  define e0 where "e0 = bitlen n - bitlen d"
  have ex: "exponent x = (if pow2 e0 \<le> x then e0 else e0 - 1)"
    using assms q by (simp add: exponent_def e0_def)
  have "x < pow2 (e0 + 1)"
  proof -
    have bn: "n < 2 ^ nat (bitlen n)" using bitlen_bounds[OF n] by simp
    have bd: "2 ^ nat (bitlen d - 1) \<le> d" using bitlen_bounds[OF d] by simp
    have d1: "1 \<le> bitlen d" using d by (simp add: bitlen_alt_def)
    have n0: "0 \<le> bitlen n" by (rule bitlen_nonneg)
    have "of_int n < pow2 (bitlen n)"
      using bn n0 by (simp add: pow2_nat)
    moreover have "pow2 (bitlen d - 1) \<le> of_int d"
      using bd d1 by (simp add: pow2_nat)
    moreover have "pow2 (e0 + 1) * pow2 (bitlen d - 1) = pow2 (bitlen n)"
      by (simp add: pow2_add[symmetric] e0_def)
    ultimately have "of_int n < pow2 (e0 + 1) * of_int d"
      by (smt (verit) mult_left_mono pow2_pos less_imp_le order_less_le_trans)
    with d show ?thesis by (simp add: x pos_divide_less_eq)
  qed
  with ex show ?thesis by auto
qed

lemma pow2_less_cancel: "pow2 a < pow2 b \<Longrightarrow> a < b"
  by (rule ccontr) (simp add: not_less pow2_mono leD)

lemma exponent_unique:
  assumes "0 < x" "pow2 e \<le> x" "x < pow2 (e + 1)"
  shows "exponent x = e"
proof -
  have "pow2 e < pow2 (exponent x + 1)"
    using assms(2) exponent_upper[OF assms(1)] by simp
  then have "e < exponent x + 1" by (rule pow2_less_cancel)
  moreover have "pow2 (exponent x) < pow2 (e + 1)"
    using assms(3) exponent_le[OF assms(1)] by simp
  then have "exponent x < e + 1" by (rule pow2_less_cancel)
  ultimately show ?thesis by simp
qed

lemma to_double_eval:
  assumes "0 < x" "pow2 e \<le> x" "x < pow2 (e + 1)"
  shows "to_double x = of_int (py_round (x * pow2 (52 - e))) * pow2 (e - 52)"
  using assms by (simp add: to_double_pos_eq exponent_unique)

lemma py_round_unique:
  assumes "of_int k - 1 / 2 < y" "y < of_int k + 1 / 2"
  shows "py_round y = k"
proof -
  define f where "f = \<lfloor>y\<rfloor>"
  have b: "of_int f \<le> y" "y < of_int f + 1"
    unfolding f_def by linarith+
  have "f = k \<or> f = k - 1"
  proof -
    have "of_int f < (of_int k + 1 / 2 :: rat)" using b(1) assms(2) by simp
    then have "of_int f < (of_int (k + 1) :: rat)" by simp
    then have "f < k + 1" by (simp only: of_int_less_iff)
    moreover have "(of_int k - 1 / 2 :: rat) < of_int f + 1" using b(2) assms(1) by simp
    then have "(of_int (k - 1) :: rat) < of_int (f + 1)" by simp
    then have "k - 1 < f + 1" by (simp only: of_int_less_iff)
    ultimately show ?thesis by auto
  qed
  then show ?thesis
  proof
    assume "f = k"
    with assms(2) have "y - of_int f < 1 / 2" by simp
    then show ?thesis unfolding py_round_def Let_def f_def[symmetric] using \<open>f = k\<close> by simp
  next
    assume fk: "f = k - 1"
    with assms(1) have "1 / 2 < y - of_int f" by simp
    then show ?thesis unfolding py_round_def Let_def f_def[symmetric] using fk by simp
  qed
qed

lemma weight_3: "weight 3 = 6004799503160661 / 18014398509481984"
proof -
  have "to_double (of_int 3) = of_int 3" by (rule to_double_int) simp_all
  then have "weight 3 = to_double (1 / 3)" by (simp add: weight_def)
  also have "\<dots> = of_int (py_round (1 / 3 * pow2 (52 - (- 2)))) * pow2 (- 2 - 52)"
    by (rule to_double_eval) (simp_all add: pow2_def power_int_minus)
  also have "py_round (1 / 3 * pow2 (52 - (- 2))) = 6004799503160661"
    by (rule py_round_unique) (simp_all add: pow2_def)
  finally show ?thesis by (simp add: pow2_def power_int_minus)
qed

text \<open>The example of the docstring of \<open>_send_webhook\<close>: 2279 seconds.\<close>

lemma duration_example: "rounded_duration 72928044 = 2279"
proof -
  have "to_double (of_int (int 72928044 - 44) / 32000) = 2279"
    by (subst to_double_eval[where e="11"])
       (simp_all add: pow2_def power_int_minus py_round_def Let_def)
  then show ?thesis by (simp add: rounded_duration_def duration_seconds_def py_round_def)
qed


section \<open>Properties of the premix stage\<close>


lemma run_runs: "runs (snd (run E cmd s)) = runs s @ [cmd]"
  by (simp add: run_def split: prod.splits)

lemma premix_identity:
  "probed_channels E a s \<le> 2 \<Longrightarrow> fst (premix_audio E a s) = a"
  by (auto simp: premix_audio_def probed_channels_def Let_def split: prod.splits)

lemma premix_runs:
  "2 < probed_channels E a s \<Longrightarrow>
     runs (snd (premix_audio E a s)) =
       runs s @ [probe_cmd a, mix_cmd E a (mixed_path E a) (probed_channels E a s)]"
  by (auto simp: premix_audio_def probed_channels_def mixed_path_def run_def log_msg_def Let_def
      split: prod.splits run_result.splits)

lemma mix_terms_sum: "0 \<le> C \<Longrightarrow> sum_list (map fst (mix_terms C)) = of_int C * weight C"
  by (simp add: mix_terms_def comp_def map_replicate_const sum_list_replicate)

lemma weights_sum_err:
  assumes "2 < C" "C < 2 ^ 53"
  shows "\<bar>sum_list (map fst (mix_terms C)) - 1\<bar> \<le> 1 / 2 ^ 53"
proof -
  have c: "(0::rat) < of_int C" using assms by simp
  have "of_int C * weight C - 1 = of_int C * (weight C - 1 / of_int C)"
    using c by (simp add: algebra_simps)
  then have "\<bar>of_int C * weight C - 1\<bar> = of_int C * \<bar>weight C - 1 / of_int C\<bar>"
    using c by (simp add: abs_mult)
  also have "\<dots> \<le> of_int C * (1 / (of_int C * 2 ^ 53))"
    by (rule mult_left_mono[OF weight_err[OF assms]]) (use c in simp)
  also have "\<dots> = 1 / 2 ^ 53" using c by simp
  finally show ?thesis using assms by (simp add: mix_terms_sum)
qed

lemma probed_example: "probed_channels (example_env ''3'' rc st) a s = 3"
  by (simp add: probed_channels_def example_env_def run_def probe_cmd_def probe_channels_def
      py_int_def strip_def is_space_def unsigned_val_def digit_val_def)

text \<open>
  Claim C5, as the code has it. With \<open>C\<close> the channel count the stage works with: for
  \<open>C \<le> 2\<close> the stage returns the path it was given. For \<open>C > 2\<close> it runs the probe and
  then the mixer, whose filter argument is rendered from one term for each channel
  \<open>0, \<dots>, C - 1\<close>, all with the same weight, the float \<open>1.0 / C\<close>. That float is the double
  nearest to \<open>1/C\<close>: for \<open>C\<close> below \<open>2^53\<close> it differs from \<open>1/C\<close> by at most
  \<open>1/(C 2^53)\<close>, and the \<open>C\<close> weights sum to 1 within \<open>2^-53\<close>.
\<close>

theorem premix_weights:
  "(probed_channels E a s \<le> 2 \<longrightarrow> fst (premix_audio E a s) = a) \<and>
   (2 < probed_channels E a s \<longrightarrow>
      runs (snd (premix_audio E a s)) =
        runs s @ [probe_cmd a, mix_cmd E a (mixed_path E a) (probed_channels E a s)] \<and>
      mix_cmd E a (mixed_path E a) (probed_channels E a s) ! 5 =
        mix_filter E (probed_channels E a s) \<and>
      mix_terms (probed_channels E a s) =
        map (\<lambda>i. (weight (probed_channels E a s), i)) [0..<nat (probed_channels E a s)]) \<and>
   (2 < probed_channels E a s \<and> probed_channels E a s < 2 ^ 53 \<longrightarrow>
      \<bar>weight (probed_channels E a s) - 1 / of_int (probed_channels E a s)\<bar>
        \<le> 1 / (of_int (probed_channels E a s) * 2 ^ 53) \<and>
      \<bar>sum_list (map fst (mix_terms (probed_channels E a s))) - 1\<bar> \<le> 1 / 2 ^ 53)"
proof (intro conjI impI)
  assume "probed_channels E a s \<le> 2"
  then show "fst (premix_audio E a s) = a" by (rule premix_identity)
next
  assume "2 < probed_channels E a s"
  then show "runs (snd (premix_audio E a s)) =
        runs s @ [probe_cmd a, mix_cmd E a (mixed_path E a) (probed_channels E a s)]"
    by (rule premix_runs)
next
  show "mix_cmd E a (mixed_path E a) (probed_channels E a s) ! 5 =
        mix_filter E (probed_channels E a s)"
    by (simp add: mix_cmd_def)
next
  show "mix_terms (probed_channels E a s) =
        map (\<lambda>i. (weight (probed_channels E a s), i)) [0..<nat (probed_channels E a s)]"
    by (simp add: mix_terms_def)
next
  assume c: "2 < probed_channels E a s \<and> probed_channels E a s < 2 ^ 53"
  then show "\<bar>weight (probed_channels E a s) - 1 / of_int (probed_channels E a s)\<bar>
        \<le> 1 / (of_int (probed_channels E a s) * 2 ^ 53)"
    by (intro weight_err) simp_all
  from c show "\<bar>sum_list (map fst (mix_terms (probed_channels E a s))) - 1\<bar> \<le> 1 / 2 ^ 53"
    by (intro weights_sum_err) simp_all
qed

theorem premix_weights_witness:
  "\<bar>weight 3 - 1 / 3\<bar> \<le> 1 / (3 * 2 ^ 53) \<and>
   \<bar>sum_list (map fst (mix_terms 3)) - 1\<bar> \<le> 1 / 2 ^ 53"
  using premix_weights[of "example_env ''3'' 0 200" "''/rec/a.wav''" "init Map.empty",
      unfolded probed_example, THEN conjunct2, THEN conjunct2]
  by simp

text \<open>
  The claim as stated has the weight exactly \<open>1/C\<close> and the sum exactly 1. For three
  channels the weight is the double 6004799503160661 / 2^54, which is not 1/3, and three
  times it is not 1.
\<close>

theorem premix_weights_counterexample:
  "weight 3 \<noteq> 1 / 3 \<and> sum_list (map fst (mix_terms 3)) \<noteq> 1"
  by (simp add: mix_terms_sum weight_3)

text \<open>
  Claim C6 against the code. Whenever the mixer runs, the arguments after the filter are
  \<open>-ar 48000 -c:a pcm_s16le\<close> and the temporary path: 16-bit PCM and a temporary file as
  claimed, but the sample rate requested is the constant 48000, whatever the rate of the
  input (the probe reads the channel count only).
\<close>

theorem mixer_requests_fixed_rate:
  "2 < probed_channels E a s \<longrightarrow>
     last (runs (snd (premix_audio E a s))) =
       mix_cmd E a (mixed_path E a) (probed_channels E a s) \<and>
     drop 6 (mix_cmd E a (mixed_path E a) (probed_channels E a s)) =
       [''-ar'', ''48000'', ''-c:a'', ''pcm_s16le'', mixed_path E a]"
  by (simp add: premix_runs mix_cmd_def)

theorem mixer_requests_fixed_rate_witness:
  "drop 6 (last (runs (snd (premix_audio (example_env ''3'' 0 200) ''/rec/a.wav''
                            (init Map.empty))))) =
     [''-ar'', ''48000'', ''-c:a'', ''pcm_s16le'', ''/tmp/a_mixed.wav'']"
  using mixer_requests_fixed_rate[of "example_env ''3'' 0 200" "''/rec/a.wav''" "init Map.empty",
      unfolded probed_example]
  by (simp add: mixed_path_def example_env_def child_def stem_def name_def has_suffix_def)


section \<open>Properties of transcription and delivery\<close>

lemma log_msg_frame [simp]:
  "posts (log_msg l m s) = posts s" "queue (log_msg l m s) = queue s"
  "running (log_msg l m s) = running s" "files (log_msg l m s) = files s"
  "runs (log_msg l m s) = runs s" "logged (log_msg l m s) = logged s @ [(l, m)]"
  by (simp_all add: log_msg_def)

lemma run_frame [simp]:
  "posts (snd (run E cmd s)) = posts s" "queue (snd (run E cmd s)) = queue s"
  "running (snd (run E cmd s)) = running s" "logged (snd (run E cmd s)) = logged s"
  by (simp_all add: run_def split: prod.splits)

lemma premix_frame [simp]:
  "posts (snd (premix_audio E a s)) = posts s"
  "queue (snd (premix_audio E a s)) = queue s"
  "running (snd (premix_audio E a s)) = running s"
proof -
  obtain r s0 where r: "run E (probe_cmd a) s = (r, s0)" by (cases "run E (probe_cmd a) s")
  obtain c lv msg where p: "probe_channels a r = (c, lv, msg)" by (cases "probe_channels a r")
  obtain r2 s3 where r2: "run E (mix_cmd E a (child (tempdir E) (stem a @ ''_mixed.wav'')) c)
      (log_msg INFO (''Pre-mixing '' @ str_int c @ ''-channel audio to mono'') (log_msg lv msg s0)) = (r2, s3)"
    by fastforce
  have s0: "posts s0 = posts s" "queue s0 = queue s" "running s0 = running s"
    using run_frame[of E "probe_cmd a" s] by (simp_all add: r)
  have s3: "posts s3 = posts s" "queue s3 = queue s" "running s3 = running s"
    using run_frame[of E "mix_cmd E a (child (tempdir E) (stem a @ ''_mixed.wav'')) c"
        "log_msg INFO (''Pre-mixing '' @ str_int c @ ''-channel audio to mono'') (log_msg lv msg s0)"]
    by (simp_all add: r2 s0 del: append.simps)
  show "posts (snd (premix_audio E a s)) = posts s"
    "queue (snd (premix_audio E a s)) = queue s"
    "running (snd (premix_audio E a s)) = running s"
    by (simp_all add: premix_audio_def r p r2 s0 s3 Let_def del: append.simps split: run_result.splits)
qed

lemma transcribe_file_failed:
  assumes "transcription_failed (transcription_result E cfg a s)"
  shows "terminal_state (fst (transcribe_file E cfg a s)) = FailedLocal"
    and "posts (snd (transcribe_file E cfg a s)) = posts s"
    and "queue (snd (transcribe_file E cfg a s)) = queue s"
    and "running (snd (transcribe_file E cfg a s)) = running s"
    and "case transcription_result E cfg a s of
           Completed rc out err \<Rightarrow>
             (\<exists>L. logged (snd (transcribe_file E cfg a s)) =
                L @ [(ERROR, ''noScribe failed with exit code '' @ str_int rc),
                     (ERROR, ''stdout: '' @ out), (ERROR, ''stderr: '' @ err)])
         | Raised e \<Rightarrow>
             (\<exists>L. logged (snd (transcribe_file E cfg a s)) =
                L @ [(ERROR, ''Failed to run noScribe: '' @ e)])"
proof -
  define s1 where "s1 = log_msg INFO (''Starting transcription: '' @ name a) s"
  obtain pa s2 where pm: "premix_audio E a s1 = (pa, s2)" by (cases "premix_audio E a s1")
  define cmd where "cmd = noscribe_cmd cfg pa (transcript_for cfg a)"
  define s3 where "s3 = log_msg DEBUG (''Command: '' @ join '' '' cmd) s2"
  obtain r s4 where rn: "run E cmd s3 = (r, s4)" by (cases "run E cmd s3")
  have tr: "transcription_result E cfg a s = r"
    by (simp add: transcription_result_def s1_def[symmetric] pm cmd_def[symmetric]
        s3_def[symmetric] rn Let_def del: append.simps)
  have f1: "posts s1 = posts s" "queue s1 = queue s" "running s1 = running s"
    by (simp_all add: s1_def)
  have f2: "posts s2 = posts s" "queue s2 = queue s" "running s2 = running s"
    using premix_frame[of E a s1] by (simp_all add: pm f1)
  have f3: "posts s3 = posts s" "queue s3 = queue s" "running s3 = running s"
    by (simp_all add: s3_def f2)
  have f4: "posts s4 = posts s" "queue s4 = queue s" "running s4 = running s"
    using run_frame[of E cmd s3] by (simp_all add: rn f3)
  have tf: "transcribe_file E cfg a s =
      (case r of
         Raised e \<Rightarrow> (NoScribeLaunchFailed, log_msg ERROR (''Failed to run noScribe: '' @ e) s4)
       | Completed rc out err \<Rightarrow>
           (NoScribeNonZero,
            log_msg ERROR (''stderr: '' @ err)
              (log_msg ERROR (''stdout: '' @ out)
                 (log_msg ERROR (''noScribe failed with exit code '' @ str_int rc) s4))))"
    using assms
    by (simp add: transcribe_file_def s1_def[symmetric] pm cmd_def[symmetric]
        s3_def[symmetric] rn Let_def tr transcription_failed_def del: append.simps
        split: run_result.splits)
  show "terminal_state (fst (transcribe_file E cfg a s)) = FailedLocal"
    by (simp add: tf split: run_result.splits)
  show "posts (snd (transcribe_file E cfg a s)) = posts s"
    by (simp add: tf f4 split: run_result.splits)
  show "queue (snd (transcribe_file E cfg a s)) = queue s"
    by (simp add: tf f4 split: run_result.splits)
  show "running (snd (transcribe_file E cfg a s)) = running s"
    by (simp add: tf f4 split: run_result.splits)
  show "case transcription_result E cfg a s of
           Completed rc out err \<Rightarrow>
             (\<exists>L. logged (snd (transcribe_file E cfg a s)) =
                L @ [(ERROR, ''noScribe failed with exit code '' @ str_int rc),
                     (ERROR, ''stdout: '' @ out), (ERROR, ''stderr: '' @ err)])
         | Raised e \<Rightarrow>
             (\<exists>L. logged (snd (transcribe_file E cfg a s)) =
                L @ [(ERROR, ''Failed to run noScribe: '' @ e)])"
    by (simp add: tr tf split: run_result.splits)
qed


lemma process_queue_head:
  "queue s = a # rest \<Longrightarrow>
     process_queue E cfg s =
       (Some (a, fst (transcribe_file E cfg a (taken s))),
        (snd (transcribe_file E cfg a (taken s)))\<lparr>processing := False, current_file := None\<rparr>)"
  by (simp add: process_queue_def queue_get_def taken_def Let_def split: prod.splits)

text \<open>
  Claim C2. Let the queue hold the job \<open>a\<close> first, and let the transcription subprocess
  of \<open>a\<close> exit with a non-zero code or fail to start. Then \<open>_process_queue\<close> returns, the
  job has ended as \<open>FailedLocal\<close>, no HTTP request was made, the queue holds the remaining
  jobs, the loop flag is unchanged and nothing is marked as processing. The log ends with
  the error entries of the failure: the exit code, standard output and standard error
  after a non-zero exit; the exception after a failed start (there are no streams then).
  The next iteration takes the next job of the queue.
\<close>

theorem failed_transcription_is_local:
  assumes "queue s = a # rest"
    and "transcription_failed (transcription_result E cfg a (taken s))"
  shows "\<exists>x s'. process_queue E cfg s = (Some (a, x), s') \<and>
           terminal_state x = FailedLocal \<and>
           posts s' = posts s \<and> queue s' = rest \<and> running s' = running s \<and>
           \<not> processing s' \<and> current_file s' = None \<and>
           (case transcription_result E cfg a (taken s) of
              Completed rc out err \<Rightarrow>
                (\<exists>L. logged s' =
                   L @ [(ERROR, ''noScribe failed with exit code '' @ str_int rc),
                        (ERROR, ''stdout: '' @ out), (ERROR, ''stderr: '' @ err)])
            | Raised e \<Rightarrow>
                (\<exists>L. logged s' = L @ [(ERROR, ''Failed to run noScribe: '' @ e)])) \<and>
           (case rest of
              [] \<Rightarrow> fst (process_queue E cfg s') = None
            | b # rest' \<Rightarrow> (\<exists>x'. fst (process_queue E cfg s') = Some (b, x')))"
proof -
  define x where "x = fst (transcribe_file E cfg a (taken s))"
  define s' where
    "s' = (snd (transcribe_file E cfg a (taken s)))\<lparr>processing := False, current_file := None\<rparr>"
  note f = transcribe_file_failed[OF assms(2)]
  have pq: "process_queue E cfg s = (Some (a, x), s')"
    using assms(1) by (simp add: process_queue_head x_def s'_def)
  have q: "queue s' = rest"
    using f(3) assms(1) by (simp add: s'_def taken_def)
  have nxt: "case rest of
              [] \<Rightarrow> fst (process_queue E cfg s') = None
            | b # rest' \<Rightarrow> (\<exists>x'. fst (process_queue E cfg s') = Some (b, x'))"
    using q by (cases rest) (simp_all add: process_queue_head, simp add: process_queue_def queue_get_def)
  have lg: "logged s' = logged (snd (transcribe_file E cfg a (taken s)))"
    by (simp add: s'_def)
  have c1: "terminal_state x = FailedLocal" using f(1) by (simp add: x_def)
  have c2: "posts s' = posts s" using f(2) by (simp add: s'_def taken_def)
  have c4: "running s' = running s" using f(4) by (simp add: s'_def taken_def)
  have c5: "\<not> processing s'" "current_file s' = None" by (simp_all add: s'_def)
  have c6: "case transcription_result E cfg a (taken s) of
              Completed rc out err \<Rightarrow>
                (\<exists>L. logged s' =
                   L @ [(ERROR, ''noScribe failed with exit code '' @ str_int rc),
                        (ERROR, ''stdout: '' @ out), (ERROR, ''stderr: '' @ err)])
            | Raised e \<Rightarrow>
                (\<exists>L. logged s' = L @ [(ERROR, ''Failed to run noScribe: '' @ e)])"
    unfolding lg by (rule f(5))
  show ?thesis
    by (intro exI[of _ x] exI[of _ s'] conjI pq c1 c2 q c4 c5 c6 nxt)
qed

lemmas eval_defs = transcription_result_def taken_def init_def premix_audio_def run_def
  example_env_def probe_cmd_def probe_channels_def py_int_def strip_def is_space_def
  unsigned_val_def digit_val_def noscribe_cmd_def example_config_def transcription_failed_def
  log_msg_def Let_def transcript_for_def child_def stem_def name_def has_suffix_def str_int_def
  str_nat.simps digit_char_def mix_cmd_def mix_filter_def mix_terms_def transcribe_file_def
  cleanup_def webhook_config_def

theorem failed_transcription_is_local_witness:
  "\<exists>x s'. process_queue (example_env ''2'' 1 200) example_config
             ((init Map.empty)\<lparr>queue := [''/rec/a.wav'', ''/rec/b.wav'']\<rparr>) =
             (Some (''/rec/a.wav'', x), s') \<and>
          terminal_state x = FailedLocal \<and> posts s' = [] \<and> queue s' = [''/rec/b.wav'']"
proof -
  have h1: "queue ((init Map.empty)\<lparr>queue := [''/rec/a.wav'', ''/rec/b.wav'']\<rparr>) =
      ''/rec/a.wav'' # [''/rec/b.wav'']" by simp
  have h2: "transcription_failed (transcription_result (example_env ''2'' 1 200) example_config
      ''/rec/a.wav'' (taken ((init Map.empty)\<lparr>queue := [''/rec/a.wav'', ''/rec/b.wav'']\<rparr>)))"
    by (simp add: eval_defs)
  from failed_transcription_is_local[OF h1 h2]
  obtain x s' where "process_queue (example_env ''2'' 1 200) example_config
             ((init Map.empty)\<lparr>queue := [''/rec/a.wav'', ''/rec/b.wav'']\<rparr>) =
             (Some (''/rec/a.wav'', x), s')" "terminal_state x = FailedLocal"
      "posts s' = posts ((init Map.empty)\<lparr>queue := [''/rec/a.wav'', ''/rec/b.wav'']\<rparr>)"
      "queue s' = [''/rec/b.wav'']"
    by blast
  then show ?thesis by (simp add: init_def)
qed

text \<open>
  Claim C4 against the code. A three-channel recording is mixed into
  \<open>/tmp/a_mixed.wav\<close> and the transcription engine is run on that file. When the engine
  exits with code 1, \<open>_transcribe_file\<close> returns before its cleanup block and the
  temporary file is still there; when the engine exits with code 0, the cleanup block
  deletes it.
\<close>

theorem temp_file_left_after_failure:
  "fst (transcribe_file (example_env ''3'' 1 200) example_config ''/rec/a.wav''
          (init [''/rec/a.wav'' \<mapsto> \<lparr>st_size = 1044, content = []\<rparr>])) = NoScribeNonZero \<and>
   last (runs (snd (transcribe_file (example_env ''3'' 1 200) example_config ''/rec/a.wav''
          (init [''/rec/a.wav'' \<mapsto> \<lparr>st_size = 1044, content = []\<rparr>])))) ! 2 = ''/tmp/a_mixed.wav'' \<and>
   files (snd (transcribe_file (example_env ''3'' 1 200) example_config ''/rec/a.wav''
          (init [''/rec/a.wav'' \<mapsto> \<lparr>st_size = 1044, content = []\<rparr>]))) ''/tmp/a_mixed.wav'' =
     Some \<lparr>st_size = 1000, content = []\<rparr> \<and>
   files (snd (transcribe_file (example_env ''3'' 0 200) example_config ''/rec/a.wav''
          (init [''/rec/a.wav'' \<mapsto> \<lparr>st_size = 1044, content = []\<rparr>]))) ''/tmp/a_mixed.wav'' = None"
  by (simp add: eval_defs)

lemma build_started_at_frame [simp]:
  "posts (snd (build_started_at E n s)) = posts s"
  "queue (snd (build_started_at E n s)) = queue s"
  "running (snd (build_started_at E n s)) = running s"
  "files (snd (build_started_at E n s)) = files s"
  by (simp_all add: build_started_at_def fall_back_def split: sum.splits conversion.splits)

lemma post_payload_result:
  "posts (snd (post_payload E cfg url tf af t st s)) = posts s @ [(url, payload_of tf af t st)]"
  "queue (snd (post_payload E cfg url tf af t st s)) = queue s"
  "running (snd (post_payload E cfg url tf af t st s)) = running s"
  "request_failed (http_post E url (payload_of tf af t st) (timeout_of cfg)) \<Longrightarrow>
     fst (post_payload E cfg url tf af t st s) = WebhookRequestFailed \<and>
     (\<exists>m. last (logged (snd (post_payload E cfg url tf af t st s))) = (ERROR, m))"
  "\<not> request_failed (http_post E url (payload_of tf af t st) (timeout_of cfg)) \<Longrightarrow>
     fst (post_payload E cfg url tf af t st s) = WebhookSent"
  by (auto simp: post_payload_def payload_of_def timeout_of_def request_failed_def
      raise_for_status_def Let_def split: http_result.splits option.splits if_splits)

text \<open>What \<open>_send_webhook\<close> does, by cases.\<close>

lemma send_webhook_cases:
  "(fst (send_webhook E cfg a t s) = WebhookUrlMissing \<and>
      (webhook_url cfg = None \<or> webhook_url cfg = Some []) \<and>
      posts (snd (send_webhook E cfg a t s)) = posts s) \<or>
   (fst (send_webhook E cfg a t s) = WebhookPrepareFailed \<and>
      posts (snd (send_webhook E cfg a t s)) = posts s) \<or>
   (\<exists>url tf af st. webhook_url cfg = Some url \<and> url \<noteq> [] \<and>
      files s t = Some tf \<and> files s a = Some af \<and>
      send_webhook E cfg a t s =
        post_payload E cfg url tf af t st (snd (build_started_at E (stem a) s)))"
proof (cases "webhook_url cfg = None \<or> webhook_url cfg = Some []")
  case True
  then show ?thesis by (auto simp: send_webhook_def)
next
  case False
  then obtain url where url: "webhook_url cfg = Some url" "url \<noteq> []" by auto
  show ?thesis
  proof (cases "files s t")
    case None
    with url show ?thesis by (simp add: send_webhook_def)
  next
    case tf: (Some tf)
    show ?thesis
    proof (cases "files s a")
      case None
      with url tf show ?thesis by (simp add: send_webhook_def)
    next
      case af: (Some af)
      obtain r s1 where b: "build_started_at E (stem a) s = (r, s1)"
        by (cases "build_started_at E (stem a) s")
      show ?thesis
      proof (cases r)
        case Overflow
        with url tf af b show ?thesis
          using build_started_at_frame(1)[of E "stem a" s] by (simp add: send_webhook_def)
      next
        case (Parsed st)
        with url tf af b show ?thesis by (auto simp: send_webhook_def)
      next
        case (Fallback st)
        with url tf af b show ?thesis by (auto simp: send_webhook_def)
      qed
    qed
  qed
qed


lemma send_webhook_frame [simp]:
  "queue (snd (send_webhook E cfg a t s)) = queue s"
  "running (snd (send_webhook E cfg a t s)) = running s"
proof -
  obtain r s1 where b: "build_started_at E (stem a) s = (r, s1)"
    by (cases "build_started_at E (stem a) s")
  have f: "queue s1 = queue s" "running s1 = running s"
    using build_started_at_frame[of E "stem a" s] by (simp_all add: b)
  show "queue (snd (send_webhook E cfg a t s)) = queue s"
    by (cases r) (simp_all add: send_webhook_def b f post_payload_result Let_def split: option.splits)
  show "running (snd (send_webhook E cfg a t s)) = running s"
    by (cases r) (simp_all add: send_webhook_def b f post_payload_result Let_def split: option.splits)
qed

lemma cleanup_frame [simp]:
  "posts (cleanup E a p s) = posts s" "queue (cleanup E a p s) = queue s"
  "running (cleanup E a p s) = running s"
  by (simp_all add: cleanup_def split: option.splits)

lemma transcribe_file_frame:
  "queue (snd (transcribe_file E cfg a s)) = queue s"
  "running (snd (transcribe_file E cfg a s)) = running s"
  "\<not> enabled cfg \<Longrightarrow> posts (snd (transcribe_file E cfg a s)) = posts s"
  "\<not> enabled cfg \<Longrightarrow> \<not> transcription_failed (transcription_result E cfg a s) \<Longrightarrow>
     fst (transcribe_file E cfg a s) = WebhookDisabled"
proof -
  define s1 where "s1 = log_msg INFO (''Starting transcription: '' @ name a) s"
  obtain pa s2 where pm: "premix_audio E a s1 = (pa, s2)" by (cases "premix_audio E a s1")
  define cmd where "cmd = noscribe_cmd cfg pa (transcript_for cfg a)"
  define s3 where "s3 = log_msg DEBUG (''Command: '' @ join '' '' cmd) s2"
  obtain r s4 where rn: "run E cmd s3 = (r, s4)" by (cases "run E cmd s3")
  have tr: "transcription_result E cfg a s = r"
    by (simp add: transcription_result_def s1_def[symmetric] pm cmd_def[symmetric]
        s3_def[symmetric] rn Let_def del: append.simps)
  have f1: "posts s1 = posts s" "queue s1 = queue s" "running s1 = running s"
    by (simp_all add: s1_def)
  have f2: "posts s2 = posts s" "queue s2 = queue s" "running s2 = running s"
    using premix_frame[of E a s1] by (simp_all add: pm f1)
  have f3: "posts s3 = posts s" "queue s3 = queue s" "running s3 = running s"
    by (simp_all add: s3_def f2)
  have f4: "posts s4 = posts s" "queue s4 = queue s" "running s4 = running s"
    using run_frame[of E cmd s3] by (simp_all add: rn f3)
  have tf: "transcribe_file E cfg a s =
      (case r of
         Raised e \<Rightarrow> (NoScribeLaunchFailed, log_msg ERROR (''Failed to run noScribe: '' @ e) s4)
       | Completed rc out err \<Rightarrow>
           if rc \<noteq> 0
           then (NoScribeNonZero,
            log_msg ERROR (''stderr: '' @ err)
              (log_msg ERROR (''stdout: '' @ out)
                 (log_msg ERROR (''noScribe failed with exit code '' @ str_int rc) s4)))
           else let s6 = cleanup E a pa (log_msg INFO (''Transcription complete: '' @
                      name (transcript_for cfg a) @ '' ('' @ elapsed E @ ''s)'') s4)
                in if enabled cfg then send_webhook E cfg a (transcript_for cfg a) s6
                   else (WebhookDisabled, s6))"
    by (simp add: transcribe_file_def s1_def[symmetric] pm cmd_def[symmetric]
        s3_def[symmetric] rn Let_def enabled_def del: append.simps
        split: run_result.splits)
  show "queue (snd (transcribe_file E cfg a s)) = queue s"
    by (simp add: tf f4 Let_def split: run_result.splits)
  show "running (snd (transcribe_file E cfg a s)) = running s"
    by (simp add: tf f4 Let_def split: run_result.splits)
  show "\<not> enabled cfg \<Longrightarrow> posts (snd (transcribe_file E cfg a s)) = posts s"
    by (simp add: tf f4 Let_def split: run_result.splits)
  show "\<not> enabled cfg \<Longrightarrow> \<not> transcription_failed (transcription_result E cfg a s) \<Longrightarrow>
     fst (transcribe_file E cfg a s) = WebhookDisabled"
    by (simp add: tf tr transcription_failed_def Let_def split: run_result.splits)
qed

text \<open>
  Claim C3, as the code has it. Without a webhook URL (absent or empty) \<open>_send_webhook\<close>
  makes no request and the job counts as delivered; with the webhook disabled
  \<open>_transcribe_file\<close> makes no request either and a transcribed job ends as delivered.
  Otherwise \<open>_send_webhook\<close> makes at most one request. If that request raises a
  transport exception or is answered with a status from 400 to 599, the job ends as
  \<open>FailedDelivery\<close> and the last log entry is at error level; any other status, also one
  outside 200 to 299, counts as sent. In every case the function returns, with the queue
  and the loop flag untouched: nothing is retried and the loop goes on.
\<close>

theorem delivery_outcomes:
  "(webhook_url cfg = None \<or> webhook_url cfg = Some [] \<longrightarrow>
      fst (send_webhook E cfg a t s) = WebhookUrlMissing \<and>
      terminal_state (fst (send_webhook E cfg a t s)) = Delivered \<and>
      posts (snd (send_webhook E cfg a t s)) = posts s) \<and>
   (\<not> enabled cfg \<longrightarrow>
      posts (snd (transcribe_file E cfg a s)) = posts s \<and>
      (\<not> transcription_failed (transcription_result E cfg a s) \<longrightarrow>
         fst (transcribe_file E cfg a s) = WebhookDisabled \<and>
         terminal_state (fst (transcribe_file E cfg a s)) = Delivered)) \<and>
   (posts (snd (send_webhook E cfg a t s)) = posts s \<or>
    (\<exists>u b. posts (snd (send_webhook E cfg a t s)) = posts s @ [(u, b)] \<and>
       (request_failed (http_post E u b (timeout_of cfg)) \<longrightarrow>
          fst (send_webhook E cfg a t s) = WebhookRequestFailed \<and>
          terminal_state (fst (send_webhook E cfg a t s)) = FailedDelivery \<and>
          (\<exists>m. last (logged (snd (send_webhook E cfg a t s))) = (ERROR, m))) \<and>
       (\<not> request_failed (http_post E u b (timeout_of cfg)) \<longrightarrow>
          fst (send_webhook E cfg a t s) = WebhookSent))) \<and>
   queue (snd (send_webhook E cfg a t s)) = queue s \<and>
   running (snd (send_webhook E cfg a t s)) = running s"
proof (intro conjI impI)
  assume "webhook_url cfg = None \<or> webhook_url cfg = Some []"
  then show "fst (send_webhook E cfg a t s) = WebhookUrlMissing"
    "terminal_state (fst (send_webhook E cfg a t s)) = Delivered"
    "posts (snd (send_webhook E cfg a t s)) = posts s"
    by (auto simp: send_webhook_def)
next
  assume d: "\<not> enabled cfg"
  then show "posts (snd (transcribe_file E cfg a s)) = posts s"
    by (rule transcribe_file_frame(3))
  assume "\<not> transcription_failed (transcription_result E cfg a s)"
  with d show "fst (transcribe_file E cfg a s) = WebhookDisabled"
    "terminal_state (fst (transcribe_file E cfg a s)) = Delivered"
    by (simp_all add: transcribe_file_frame(4))
next
  from send_webhook_cases[of E cfg a t s]
  show "posts (snd (send_webhook E cfg a t s)) = posts s \<or>
    (\<exists>u b. posts (snd (send_webhook E cfg a t s)) = posts s @ [(u, b)] \<and>
       (request_failed (http_post E u b (timeout_of cfg)) \<longrightarrow>
          fst (send_webhook E cfg a t s) = WebhookRequestFailed \<and>
          terminal_state (fst (send_webhook E cfg a t s)) = FailedDelivery \<and>
          (\<exists>m. last (logged (snd (send_webhook E cfg a t s))) = (ERROR, m))) \<and>
       (\<not> request_failed (http_post E u b (timeout_of cfg)) \<longrightarrow>
          fst (send_webhook E cfg a t s) = WebhookSent))"
  proof (elim disjE exE conjE)
    fix url tf af st
    assume sw: "send_webhook E cfg a t s =
        post_payload E cfg url tf af t st (snd (build_started_at E (stem a) s))"
    let ?s1 = "snd (build_started_at E (stem a) s)"
    let ?b = "payload_of tf af t st"
    have p: "posts (snd (send_webhook E cfg a t s)) = posts s @ [(url, ?b)]"
      by (simp add: sw post_payload_result)
    have f: "request_failed (http_post E url ?b (timeout_of cfg)) \<longrightarrow>
          fst (send_webhook E cfg a t s) = WebhookRequestFailed \<and>
          terminal_state (fst (send_webhook E cfg a t s)) = FailedDelivery \<and>
          (\<exists>m. last (logged (snd (send_webhook E cfg a t s))) = (ERROR, m))"
      using post_payload_result(4)[of E url tf af t st cfg ?s1] by (auto simp: sw)
    have g: "\<not> request_failed (http_post E url ?b (timeout_of cfg)) \<longrightarrow>
          fst (send_webhook E cfg a t s) = WebhookSent"
      using post_payload_result(5)[of E url tf af t st cfg ?s1] by (simp add: sw)
    from p f g show ?thesis by blast
  qed simp_all
qed simp_all

text \<open>
  Claim C10. Whenever \<open>_send_webhook\<close> posts a payload, its \<open>audio_duration_seconds\<close> is
  the integer \<open>round(max(0, (size - 44) / 32000))\<close> for the size of the audio file in
  bytes; it is never negative, and it is 0 for a file of at most 44 bytes.
\<close>

theorem payload_duration_nonneg:
  "posts (snd (send_webhook E cfg a t s)) = posts s \<or>
   (\<exists>u b af. posts (snd (send_webhook E cfg a t s)) = posts s @ [(u, b)] \<and>
      files s a = Some af \<and>
      audio_duration_seconds b = py_round (duration_seconds (st_size af)) \<and>
      0 \<le> audio_duration_seconds b \<and>
      (st_size af \<le> 44 \<longrightarrow> audio_duration_seconds b = 0))"
proof -
  from send_webhook_cases[of E cfg a t s] show ?thesis
  proof (elim disjE exE conjE)
    fix url tf af st
    assume af: "files s a = Some af"
      and sw: "send_webhook E cfg a t s =
        post_payload E cfg url tf af t st (snd (build_started_at E (stem a) s))"
    have p: "posts (snd (send_webhook E cfg a t s)) = posts s @ [(url, payload_of tf af t st)]"
      by (simp add: sw post_payload_result)
    have d: "audio_duration_seconds (payload_of tf af t st) = py_round (duration_seconds (st_size af))"
      by (simp add: payload_of_def rounded_duration_def)
    have n: "0 \<le> audio_duration_seconds (payload_of tf af t st)"
      by (simp add: payload_of_def rounded_duration_nonneg)
    have z: "st_size af \<le> 44 \<longrightarrow> audio_duration_seconds (payload_of tf af t st) = 0"
      by (simp add: payload_of_def rounded_duration_def duration_seconds_header)
    from p af d n z show ?thesis by blast
  qed simp_all
qed

lemmas webhook_eval = send_webhook_def post_payload_def build_started_at_def fall_back_def
  parse_local_def
  unpack2_def bind_def webhook_config_def example_config_def example_env_def init_def
  stem_def name_def has_suffix_def log_msg_def raise_for_status_def Let_def

lemma example_post:
  "posts (snd (send_webhook (example_env p rc st) webhook_config ''/rec/a.wav'' ''/txt/a.html''
     (init [''/rec/a.wav'' \<mapsto> \<lparr>st_size = 10, content = []\<rparr>,
            ''/txt/a.html'' \<mapsto> \<lparr>st_size = 13, content = ''<html></html>''\<rparr>]))) \<noteq>
   posts (init [''/rec/a.wav'' \<mapsto> \<lparr>st_size = 10, content = []\<rparr>,
                ''/txt/a.html'' \<mapsto> \<lparr>st_size = 13, content = ''<html></html>''\<rparr>])"
  by (simp add: webhook_eval split: http_result.splits option.splits)

theorem delivery_outcomes_witness:
  "fst (send_webhook (example_env ''2'' 0 500) webhook_config ''/rec/a.wav'' ''/txt/a.html''
     (init [''/rec/a.wav'' \<mapsto> \<lparr>st_size = 10, content = []\<rparr>,
            ''/txt/a.html'' \<mapsto> \<lparr>st_size = 13, content = ''<html></html>''\<rparr>])) =
     WebhookRequestFailed"
proof -
  have rf: "\<And>u b. request_failed (http_post (example_env ''2'' 0 500) u b (timeout_of webhook_config))"
    by (simp add: example_env_def request_failed_def)
  from delivery_outcomes[of webhook_config "example_env ''2'' 0 500" "''/rec/a.wav''" "''/txt/a.html''"
      "init [''/rec/a.wav'' \<mapsto> \<lparr>st_size = 10, content = []\<rparr>,
             ''/txt/a.html'' \<mapsto> \<lparr>st_size = 13, content = ''<html></html>''\<rparr>]"]
    example_post[of "''2''" 0 500] rf
  show ?thesis by blast
qed

text \<open>
  The claim as stated has every response outside 200 to 299 fail the delivery. A webhook
  that answers 304 is logged as sent and the job ends as delivered.
\<close>

theorem delivery_3xx_counterexample:
  "fst (send_webhook (example_env ''2'' 0 304) webhook_config ''/rec/a.wav'' ''/txt/a.html''
     (init [''/rec/a.wav'' \<mapsto> \<lparr>st_size = 10, content = []\<rparr>,
            ''/txt/a.html'' \<mapsto> \<lparr>st_size = 13, content = ''<html></html>''\<rparr>])) = WebhookSent \<and>
   terminal_state WebhookSent = Delivered \<and>
   http_post (example_env ''2'' 0 304) ''http://localhost:5678/webhook/transcript''
     (payload_of \<lparr>st_size = 13, content = ''<html></html>''\<rparr> \<lparr>st_size = 10, content = []\<rparr>
        ''/txt/a.html'' (iso_z (of_instant 0))) 30 = Response 304"
  by (simp add: webhook_eval)

theorem payload_duration_nonneg_witness:
  "audio_duration_seconds (snd (last (posts (snd
     (send_webhook (example_env ''2'' 0 200) webhook_config ''/rec/a.wav'' ''/txt/a.html''
        (init [''/rec/a.wav'' \<mapsto> \<lparr>st_size = 10, content = []\<rparr>,
               ''/txt/a.html'' \<mapsto> \<lparr>st_size = 13, content = ''<html></html>''\<rparr>])))))) = 0"
proof -
  have f: "files (init [''/rec/a.wav'' \<mapsto> \<lparr>st_size = 10, content = []\<rparr>,
               ''/txt/a.html'' \<mapsto> \<lparr>st_size = 13, content = ''<html></html>''\<rparr>]) ''/rec/a.wav'' =
      Some \<lparr>st_size = 10, content = []\<rparr>"
    by (simp add: init_def)
  from payload_duration_nonneg[of "example_env ''2'' 0 200" webhook_config "''/rec/a.wav''" "''/txt/a.html''"
      "init [''/rec/a.wav'' \<mapsto> \<lparr>st_size = 10, content = []\<rparr>,
             ''/txt/a.html'' \<mapsto> \<lparr>st_size = 13, content = ''<html></html>''\<rparr>]"]
    example_post[of "''2''" 0 200]
  obtain u b af where
    "posts (snd (send_webhook (example_env ''2'' 0 200) webhook_config ''/rec/a.wav'' ''/txt/a.html''
        (init [''/rec/a.wav'' \<mapsto> \<lparr>st_size = 10, content = []\<rparr>,
               ''/txt/a.html'' \<mapsto> \<lparr>st_size = 13, content = ''<html></html>''\<rparr>]))) =
       posts (init [''/rec/a.wav'' \<mapsto> \<lparr>st_size = 10, content = []\<rparr>,
               ''/txt/a.html'' \<mapsto> \<lparr>st_size = 13, content = ''<html></html>''\<rparr>]) @ [(u, b)]"
    "files (init [''/rec/a.wav'' \<mapsto> \<lparr>st_size = 10, content = []\<rparr>,
               ''/txt/a.html'' \<mapsto> \<lparr>st_size = 13, content = ''<html></html>''\<rparr>]) ''/rec/a.wav'' = Some af"
    "st_size af \<le> 44 \<longrightarrow> audio_duration_seconds b = 0"
    by blast
  with f show ?thesis by auto
qed


section \<open>Properties of the start time\<close>































lemma fields_of_inj: "fields_of dt = fields_of dt' \<Longrightarrow> dt = dt'"
  by (cases dt, cases dt') (simp add: fields_of_def)



















end
